theory Spec2Isabelle
  imports Complex_Main "HOL-Library.Sublist" "HOL-Library.AList"
begin

section \<open>The file system the builder works on\<close>

text \<open>
  build-docs.py only talks to the file system through pathlib, os.walk and shutil.
  The store is a finite table from paths to nodes. A path is the list of its components
  below the kb root (the empty path is the root itself). Symbolic links and special files
  are outside the model.
\<close>

type_synonym path = "string list"

datatype meta = Meta (mtime: nat) (perms: nat)

datatype node = File string meta | Dir

type_synonym fs = "(path \<times> node) list"

datatype error =
    SystemExit string
  | FileNotFoundError
  | NotADirectoryError
  | IsADirectoryError
  | FileExistsError
  | SameFileError
  | FileNameTooLong
  | PdfReadError
  | IndexError

text \<open>
  A call either returns a value or raises; in both cases the store it leaves behind is
  part of the outcome, because a raised exception does not undo the writes before it.
\<close>

datatype ('a, 's) result = Returned 'a 's | Raised error 's

definition lookup :: "fs \<Rightarrow> path \<Rightarrow> node option" where
  "lookup fs p = map_of fs p"

definition path_exists :: "fs \<Rightarrow> path \<Rightarrow> bool" where
  "path_exists fs p = (lookup fs p \<noteq> None)"

definition is_file :: "fs \<Rightarrow> path \<Rightarrow> bool" where
  "is_file fs p = (case lookup fs p of Some (File c m) \<Rightarrow> True | _ \<Rightarrow> False)"

definition is_dir :: "fs \<Rightarrow> path \<Rightarrow> bool" where
  "is_dir fs p = (lookup fs p = Some Dir)"

text \<open>shutil.rmtree: removes the directory and everything below it.\<close>

definition rmtree :: "path \<Rightarrow> fs \<Rightarrow> (unit, fs) result" where
  "rmtree p fs =
     (case lookup fs p of
        None \<Rightarrow> Raised FileNotFoundError fs
      | Some (File c m) \<Rightarrow> Raised NotADirectoryError fs
      | Some Dir \<Rightarrow> Returned () (filter (\<lambda>e. \<not> prefix p (fst e)) fs))"

text \<open>
  Path.mkdir(parents=True, exist_ok=True): every missing component on the way to the
  target is created; a regular file in the way raises.
\<close>

definition mkdir1 :: "path \<Rightarrow> path \<Rightarrow> fs \<Rightarrow> (unit, fs) result" where
  "mkdir1 target q fs =
     (case lookup fs q of
        Some Dir \<Rightarrow> Returned () fs
      | Some (File c m) \<Rightarrow>
          Raised (if q = target then FileExistsError else NotADirectoryError) fs
      | None \<Rightarrow> Returned () (fs @ [(q, Dir)]))"

fun mkdirs :: "path \<Rightarrow> path list \<Rightarrow> fs \<Rightarrow> (unit, fs) result" where
  "mkdirs target [] fs = Returned () fs"
| "mkdirs target (q # qs) fs =
     (case mkdir1 target q fs of
        Raised e s \<Rightarrow> Raised e s
      | Returned u s \<Rightarrow> mkdirs target qs s)"

definition mkdir_parents :: "path \<Rightarrow> fs \<Rightarrow> (unit, fs) result" where
  "mkdir_parents p fs = mkdirs p (prefixes p) fs"

definition ensure_dir :: "path \<Rightarrow> fs \<Rightarrow> (unit, fs) result" where
  "ensure_dir p fs = mkdir_parents p fs"

definition reset_dir :: "path \<Rightarrow> fs \<Rightarrow> (unit, fs) result" where
  "reset_dir p fs =
     (case (if path_exists fs p then rmtree p fs else Returned () fs) of
        Raised e s \<Rightarrow> Raised e s
      | Returned u s \<Rightarrow> mkdir_parents p s)"

text \<open>
  Writing a regular file at a path: the path must not be a directory and its parent
  directory has to exist.
\<close>

definition put_file :: "path \<Rightarrow> node \<Rightarrow> fs \<Rightarrow> (unit, fs) result" where
  "put_file p v fs =
     (case lookup fs p of
        Some Dir \<Rightarrow> Raised IsADirectoryError fs
      | Some (File c0 m0) \<Rightarrow> Returned () (AList.update p v fs)
      | None \<Rightarrow>
          (if p = [] then Raised FileNotFoundError fs
           else case lookup fs (butlast p) of
                  Some Dir \<Rightarrow> Returned () (AList.update p v fs)
                | Some (File c0 m0) \<Rightarrow> Raised NotADirectoryError fs
                | None \<Rightarrow> Raised FileNotFoundError fs))"

text \<open>
  open(path, "w"): creates the file or truncates it. The metadata of a file written by
  the builder is whatever the system stamps on it.
\<close>

definition open_w :: "meta \<Rightarrow> path \<Rightarrow> fs \<Rightarrow> (unit, fs) result" where
  "open_w m p fs = put_file p (File [] m) fs"

text \<open>f.write(s) on the file opened at the path: appends to what was written so far.\<close>

definition write_text :: "path \<Rightarrow> string \<Rightarrow> fs \<Rightarrow> fs" where
  "write_text p s fs =
     (case lookup fs p of
        Some (File c m) \<Rightarrow> AList.update p (File (c @ s) m) fs
      | _ \<Rightarrow> fs)"

text \<open>Path.name: the final component, empty for the root.\<close>

definition name_of :: "path \<Rightarrow> string" where
  "name_of p = (if p = [] then [] else last p)"

text \<open>
  shutil.copy2(src, dst): a directory as destination means the file of the same name inside
  it; content and metadata (modification time, permission bits) are both copied.
\<close>

definition copy2 :: "path \<Rightarrow> path \<Rightarrow> fs \<Rightarrow> (unit, fs) result" where
  "copy2 src dst fs =
     (let target = (if is_dir fs dst then dst @ [name_of src] else dst)
      in if path_exists fs src \<and> target = src then Raised SameFileError fs
         else case lookup fs src of
                None \<Rightarrow> Raised FileNotFoundError fs
              | Some Dir \<Rightarrow> Raised IsADirectoryError fs
              | Some (File c m) \<Rightarrow> put_file target (File c m) fs)"

text \<open>The entries of a directory, in the order the system lists them.\<close>

definition children :: "fs \<Rightarrow> path \<Rightarrow> path list" where
  "children fs d = filter (\<lambda>q. q \<noteq> [] \<and> butlast q = d) (map fst fs)"

definition listdir :: "fs \<Rightarrow> path \<Rightarrow> string list" where
  "listdir fs d = map last (children fs d)"

definition subdirs :: "fs \<Rightarrow> path \<Rightarrow> path list" where
  "subdirs fs d = filter (is_dir fs) (children fs d)"

definition depth :: "fs \<Rightarrow> nat" where
  "depth fs = foldr (\<lambda>e n. max (length (fst e)) n) fs 0"

text \<open>
  The directories a top-down walk visits: the start, then the walk of each of its
  subdirectories in turn.
\<close>

function walk_dirs :: "fs \<Rightarrow> path \<Rightarrow> path list" where
  "walk_dirs fs d = d # concat (map (walk_dirs fs) (subdirs fs d))"
  by pat_completeness auto

termination
proof (relation "measure (\<lambda>(fs, d). Suc (depth fs) - length d)")
  show "wf (measure (\<lambda>(fs, d). Suc (depth fs) - length d))" by simp
next
  fix fs :: fs and d x :: path
  assume x: "x \<in> set (subdirs fs d)"
  have bound: "length q \<le> depth fs" if "q \<in> set (map fst fs)" for q
    using that unfolding depth_def by (induction fs) (fastforce simp: le_max_iff_disj)+
  from x have "x \<in> set (map fst fs)" and "x \<noteq> []" and "butlast x = d"
    by (auto simp: subdirs_def children_def)
  then have "length x \<le> depth fs" and "length x = Suc (length d)"
    using bound [of x] by (cases x rule: rev_cases; simp)+
  then show "((fs, x), (fs, d)) \<in> measure (\<lambda>(fs, d). Suc (depth fs) - length d)"
    by simp
qed

declare walk_dirs.simps [simp del]

text \<open>
  os.walk(top): for every directory visited, its path, the names of its subdirectories and
  the names of its other entries. A top that is not a directory yields nothing. The
  builder never writes below the tree it is walking, so the walk reads the tree as it is
  when it starts.
\<close>

definition os_walk :: "fs \<Rightarrow> path \<Rightarrow> (path \<times> string list \<times> string list) list" where
  "os_walk fs top_dir =
     (if is_dir fs top_dir then
        map (\<lambda>d. (d, map last (subdirs fs d),
                      map last (filter (\<lambda>q. \<not> is_dir fs q) (children fs d))))
            (walk_dirs fs top_dir)
      else [])"

text \<open>Path.rglob("*"): everything below the directory, hidden names included.\<close>

definition rglob_all :: "fs \<Rightarrow> path \<Rightarrow> path list" where
  "rglob_all fs root_dir =
     (if is_dir fs root_dir then concat (map (children fs) (walk_dirs fs root_dir)) else [])"

text \<open>Path.rglob("*" + ending): the entries below the directory whose name ends so.\<close>

definition rglob_ending :: "fs \<Rightarrow> path \<Rightarrow> string \<Rightarrow> path list" where
  "rglob_ending fs root_dir ending = filter (\<lambda>q. suffix ending (name_of q)) (rglob_all fs root_dir)"

text \<open>
  Path.suffix: the part of the name from its last dot on; empty when the name has no dot,
  when its only dot is the leading one, or when it ends with a dot.
\<close>

definition path_suffix :: "path \<Rightarrow> string" where
  "path_suffix p =
     (let name = name_of p;
          tail = takeWhile (\<lambda>c. c \<noteq> CHR ''.'') (rev name);
          i = length name - length tail - 1
      in if CHR ''.'' \<in> set name \<and> 0 < i \<and> tail \<noteq> [] then drop i name else [])"

text \<open>str.lower(), on ASCII names.\<close>

definition lower_char :: "char \<Rightarrow> char" where
  "lower_char c =
     (let n = (of_char c :: nat) in if 65 \<le> n \<and> n \<le> 90 then char_of (n + 32) else c)"

definition lower :: "string \<Rightarrow> string" where
  "lower s = map lower_char s"

section \<open>copy\_tree and copy\_matching\_files\<close>

fun copy_files :: "path \<Rightarrow> path \<Rightarrow> string list \<Rightarrow> fs \<Rightarrow> (unit, fs) result" where
  "copy_files root_path out_dir [] fs = Returned () fs"
| "copy_files root_path out_dir (name # names) fs =
     (case copy2 (root_path @ [name]) (out_dir @ [name]) fs of
        Raised e s \<Rightarrow> Raised e s
      | Returned u s \<Rightarrow> copy_files root_path out_dir names s)"

fun copy_tree_loop ::
  "path \<Rightarrow> path \<Rightarrow> (path \<times> string list \<times> string list) list \<Rightarrow> fs \<Rightarrow> (unit, fs) result" where
  "copy_tree_loop src dst [] fs = Returned () fs"
| "copy_tree_loop src dst ((root_path, dirs, names) # rest) fs =
     (let rel = drop (length src) root_path;
          out_dir = dst @ rel
      in case ensure_dir out_dir fs of
           Raised e s \<Rightarrow> Raised e s
         | Returned u s \<Rightarrow>
             (case copy_files root_path out_dir names s of
                Raised e s' \<Rightarrow> Raised e s'
              | Returned u' s' \<Rightarrow> copy_tree_loop src dst rest s'))"

definition copy_tree :: "path \<Rightarrow> path \<Rightarrow> fs \<Rightarrow> (unit, fs) result" where
  "copy_tree src dst fs = copy_tree_loop src dst (os_walk fs src) fs"

fun copy_matching_loop ::
  "path \<Rightarrow> path \<Rightarrow> string list \<Rightarrow> path list \<Rightarrow> int \<Rightarrow> fs \<Rightarrow> (int, fs) result" where
  "copy_matching_loop src_root dst_root allowed [] count fs = Returned count fs"
| "copy_matching_loop src_root dst_root allowed (p # rest) count fs =
     (if \<not> is_file fs p then copy_matching_loop src_root dst_root allowed rest count fs
      else if lower (path_suffix p) \<notin> set allowed then
        copy_matching_loop src_root dst_root allowed rest count fs
      else
        let rel = drop (length src_root) p;
            out_path = dst_root @ rel
        in case ensure_dir (butlast out_path) fs of
             Raised e s \<Rightarrow> Raised e s
           | Returned u s \<Rightarrow>
               (case copy2 p out_path s of
                  Raised e s' \<Rightarrow> Raised e s'
                | Returned u' s' \<Rightarrow>
                    copy_matching_loop src_root dst_root allowed rest (count + 1) s'))"

definition copy_matching_files :: "path \<Rightarrow> path \<Rightarrow> string list \<Rightarrow> fs \<Rightarrow> (int, fs) result" where
  "copy_matching_files src_root dst_root allowed fs =
     copy_matching_loop src_root dst_root allowed (rglob_all fs src_root) 0 fs"

section \<open>Progress lines\<close>

record state =
  files :: fs
  stdout :: "string list"

definition say :: "string \<Rightarrow> state \<Rightarrow> state" where
  "say msg st = st\<lparr>stdout := stdout st @ [''[kb] '' @ msg]\<rparr>"

section \<open>Decimal formatting\<close>

definition digit_char :: "nat \<Rightarrow> char" where
  "digit_char d = ''0123456789'' ! (d mod 10)"

fun digits :: "nat \<Rightarrow> string" where
  "digits n = (if n < 10 then [digit_char n] else digits (n div 10) @ [digit_char (n mod 10)])"

declare digits.simps [simp del]

text \<open>str(n) of a Python int.\<close>

definition str_int :: "int \<Rightarrow> string" where
  "str_int n = (if n < 0 then ''-'' @ digits (nat (- n)) else digits (nat n))"

definition zero_pad :: "nat \<Rightarrow> string \<Rightarrow> string" where
  "zero_pad w s = replicate (w - length s) (CHR ''0'') @ s"

text \<open>The format specification 04d: sign first, then zeros up to a total width of four.\<close>

definition fmt04d :: "int \<Rightarrow> string" where
  "fmt04d n = (if n < 0 then ''-'' @ zero_pad 3 (digits (nat (- n))) else zero_pad 4 (digits (nat n)))"

section \<open>build\_cpp\<close>

text \<open>
  What the run depends on besides the store: the components of the resolved absolute
  path given as the root, whether pypdf can be imported, what pypdf
  makes of the bytes of a PDF (the extracted text of each page, None where extraction
  yields nothing, or no reader at all for a file it cannot parse), and the metadata
  stamped on newly written files.
\<close>

record env =
  kb_root :: "string list"
  pypdf_installed :: bool
  pdf_reader :: "string \<Rightarrow> string option list option"
  new_meta :: meta

definition cpp_pdf_path :: path where
  "cpp_pdf_path = [''languages'', ''cpp'', ''downloads'', ''cpp-draft.pdf'']"

definition cpp_out_dir :: path where
  "cpp_out_dir = [''languages'', ''cpp'', ''docs'', ''cpp-working-draft-pdf'']"

definition out_name :: "int \<Rightarrow> int \<Rightarrow> string" where
  "out_name start_page_0 end_page_0 =
     ''cpp-draft.p'' @ fmt04d (start_page_0 + 1) @ ''-p'' @ fmt04d (end_page_0 + 1) @ ''.txt''"

text \<open>reader.pages[i] with Python's indexing.\<close>

definition py_index :: "'a list \<Rightarrow> int \<Rightarrow> 'a option" where
  "py_index xs i =
     (let n = int (length xs); j = (if i < 0 then n + i else i)
      in if 0 \<le> j \<and> j < n then Some (xs ! nat j) else None)"

text \<open>page.extract\_text() or ""\<close>

definition page_text :: "string option \<Rightarrow> string" where
  "page_text t = (case t of None \<Rightarrow> [] | Some s \<Rightarrow> s)"

definition page_marker :: "int \<Rightarrow> string" where
  "page_marker page_i =
     [CHR 0x0A, CHR 0x0A] @ ''===== PAGE '' @ str_int (page_i + 1) @ '' ====='' @ [CHR 0x0A, CHR 0x0A]"

definition write_page :: "string option list \<Rightarrow> path \<Rightarrow> int \<Rightarrow> fs \<Rightarrow> (unit, fs) result" where
  "write_page pages out_path page_i fs =
     (case py_index pages page_i of
        None \<Rightarrow> Raised IndexError fs
      | Some page \<Rightarrow>
          Returned () (write_text out_path (page_text page)
                        (write_text out_path (page_marker page_i) fs)))"

fun write_pages :: "string option list \<Rightarrow> path \<Rightarrow> int list \<Rightarrow> fs \<Rightarrow> (unit, fs) result" where
  "write_pages pages out_path [] fs = Returned () fs"
| "write_pages pages out_path (i # is) fs =
     (case write_page pages out_path i fs of
        Raised e s \<Rightarrow> Raised e s
      | Returned u s \<Rightarrow> write_pages pages out_path is s)"

definition write_batch ::
  "meta \<Rightarrow> string option list \<Rightarrow> int \<Rightarrow> int \<Rightarrow> state \<Rightarrow> (unit, state) result" where
  "write_batch m pages start end_0 st =
     (let out_path = cpp_out_dir @ [out_name start end_0];
          st1 = say (''cpp: write '' @ out_name start end_0) st
      in case open_w m out_path (files st1) of
           Raised e f \<Rightarrow> Raised e (st1\<lparr>files := f\<rparr>)
         | Returned u f \<Rightarrow>
             (case write_pages pages out_path [start..end_0] f of
                Raised e f' \<Rightarrow> Raised e (st1\<lparr>files := f'\<rparr>)
              | Returned u' f' \<Rightarrow> Returned () (st1\<lparr>files := f'\<rparr>)))"

text \<open>
  The while loop of build\_cpp. Nothing in the source bounds the number of iterations, so
  the loop is a partial function: None stands for a run that never returns.
\<close>

partial_function (option) cpp_loop ::
  "meta \<Rightarrow> string option list \<Rightarrow> int \<Rightarrow> int \<Rightarrow> state \<Rightarrow> (unit, state) result option" where
  "cpp_loop m pages pages_per_file start st =
     (if start < int (length pages) then
        (case write_batch m pages start
                (min (int (length pages) - 1) (start + pages_per_file - 1)) st of
           Raised e s \<Rightarrow> Some (Raised e s)
         | Returned u s \<Rightarrow>
             cpp_loop m pages pages_per_file
               (min (int (length pages) - 1) (start + pages_per_file - 1) + 1) s)
      else Some (Returned () st))"

declare cpp_loop.simps [code]

definition PdfReader :: "env \<Rightarrow> path \<Rightarrow> fs \<Rightarrow> string option list option" where
  "PdfReader env p fs =
     (case lookup fs p of Some (File c m) \<Rightarrow> pdf_reader env c | _ \<Rightarrow> None)"

definition missing_pypdf_message :: string where
  "missing_pypdf_message =
     ''Missing dependency '' @ [CHR 0x27] @ ''pypdf'' @ [CHR 0x27] @
     ''. Install with: python3 -m pip install -r rag-ml/requirements.txt''"

definition build_cpp :: "env \<Rightarrow> int \<Rightarrow> state \<Rightarrow> (unit, state) result option" where
  "build_cpp env pages_per_file st =
     (if \<not> pypdf_installed env then Some (Raised (SystemExit missing_pypdf_message) st)
      else if \<not> path_exists (files st) cpp_pdf_path then
        Some (Raised (SystemExit ''C++ draft PDF not found. Run: ./rag-ml/kb/pull-docs.sh'') st)
      else
        let st1 = say ''cpp: extract pdf -> docs/cpp-working-draft-pdf/ (split by pages)'' st
        in case reset_dir cpp_out_dir (files st1) of
             Raised e f \<Rightarrow> Some (Raised e (st1\<lparr>files := f\<rparr>))
           | Returned u f \<Rightarrow>
               (case PdfReader env cpp_pdf_path f of
                  None \<Rightarrow>
                    Some (Raised (if is_dir f cpp_pdf_path then IsADirectoryError else PdfReadError)
                            (st1\<lparr>files := f\<rparr>))
                | Some pages \<Rightarrow>
                    cpp_loop (new_meta env) pages pages_per_file 0
                      (say (''cpp: pages='' @ str_int (int (length pages)) @
                            '', pages_per_file='' @ str_int pages_per_file)
                         (st1\<lparr>files := f\<rparr>))))"

subsection \<open>build\_cpp on a file system with a limit on the length of a name\<close>

text \<open>
  A file system refuses to create a file whose name is longer than its limit (NAME\_MAX,
  255 on the usual ones): open raises OSError, file name too long. The names build\_cpp
  writes grow with the page numbers in them, so the limit matters for how its loop can
  end. Here are open, the loop body, the loop and build\_cpp once more, as in the source,
  on a file system with the limit name\_max.
\<close>

definition open_w_limited :: "nat \<Rightarrow> meta \<Rightarrow> path \<Rightarrow> fs \<Rightarrow> (unit, fs) result" where
  "open_w_limited name_max m p fs =
     (if p \<noteq> [] \<and> is_dir fs (butlast p) \<and> name_max < length (last p)
      then Raised FileNameTooLong fs
      else open_w m p fs)"

definition write_batch_limited ::
  "nat \<Rightarrow> meta \<Rightarrow> string option list \<Rightarrow> int \<Rightarrow> int \<Rightarrow> state \<Rightarrow> (unit, state) result" where
  "write_batch_limited name_max m pages start end_0 st =
     (let out_path = cpp_out_dir @ [out_name start end_0];
          st1 = say (''cpp: write '' @ out_name start end_0) st
      in case open_w_limited name_max m out_path (files st1) of
           Raised e f \<Rightarrow> Raised e (st1\<lparr>files := f\<rparr>)
         | Returned u f \<Rightarrow>
             (case write_pages pages out_path [start..end_0] f of
                Raised e f' \<Rightarrow> Raised e (st1\<lparr>files := f'\<rparr>)
              | Returned u' f' \<Rightarrow> Returned () (st1\<lparr>files := f'\<rparr>)))"

partial_function (option) cpp_loop_limited ::
  "nat \<Rightarrow> meta \<Rightarrow> string option list \<Rightarrow> int \<Rightarrow> int \<Rightarrow> state \<Rightarrow> (unit, state) result option" where
  "cpp_loop_limited name_max m pages pages_per_file start st =
     (if start < int (length pages) then
        (case write_batch_limited name_max m pages start
                (min (int (length pages) - 1) (start + pages_per_file - 1)) st of
           Raised e s \<Rightarrow> Some (Raised e s)
         | Returned u s \<Rightarrow>
             cpp_loop_limited name_max m pages pages_per_file
               (min (int (length pages) - 1) (start + pages_per_file - 1) + 1) s)
      else Some (Returned () st))"

declare cpp_loop_limited.simps [code]

definition build_cpp_limited :: "nat \<Rightarrow> env \<Rightarrow> int \<Rightarrow> state \<Rightarrow> (unit, state) result option" where
  "build_cpp_limited name_max env pages_per_file st =
     (if \<not> pypdf_installed env then Some (Raised (SystemExit missing_pypdf_message) st)
      else if \<not> path_exists (files st) cpp_pdf_path then
        Some (Raised (SystemExit ''C++ draft PDF not found. Run: ./rag-ml/kb/pull-docs.sh'') st)
      else
        let st1 = say ''cpp: extract pdf -> docs/cpp-working-draft-pdf/ (split by pages)'' st
        in case reset_dir cpp_out_dir (files st1) of
             Raised e f \<Rightarrow> Some (Raised e (st1\<lparr>files := f\<rparr>))
           | Returned u f \<Rightarrow>
               (case PdfReader env cpp_pdf_path f of
                  None \<Rightarrow>
                    Some (Raised (if is_dir f cpp_pdf_path then IsADirectoryError else PdfReadError)
                            (st1\<lparr>files := f\<rparr>))
                | Some pages \<Rightarrow>
                    cpp_loop_limited name_max (new_meta env) pages pages_per_file 0
                      (say (''cpp: pages='' @ str_int (int (length pages)) @
                            '', pages_per_file='' @ str_int pages_per_file)
                         (st1\<lparr>files := f\<rparr>))))"

text \<open>The exception that ended a run, if one did.\<close>

definition outcome_error :: "('a, 's) result option \<Rightarrow> error option" where
  "outcome_error r = (case r of Some (Raised e s) \<Rightarrow> Some e | _ \<Rightarrow> None)"

text \<open>Whether a run ended by returning.\<close>

definition run_returned :: "('a, 's) result option \<Rightarrow> bool" where
  "run_returned r = (case r of Some (Returned a s) \<Rightarrow> True | _ \<Rightarrow> False)"

section \<open>build\_python, build\_javascript, build\_swift\<close>

definition python_raw :: path where
  "python_raw = [''languages'', ''python'', ''raw'', ''python-docs-text'']"

definition python_out :: path where
  "python_out = [''languages'', ''python'', ''docs'', ''python-docs-text'']"

definition build_python :: "state \<Rightarrow> (unit, state) result" where
  "build_python st =
     (if \<not> path_exists (files st) python_raw then
        Raised (SystemExit ''Python raw docs not found. Run: ./rag-ml/kb/pull-docs.sh'') st
      else
        let st1 = say ''python: copy raw text archive -> docs/python-docs-text/'' st
        in case reset_dir python_out (files st1) of
             Raised e f \<Rightarrow> Raised e (st1\<lparr>files := f\<rparr>)
           | Returned u f \<Rightarrow>
               (case copy_tree python_raw python_out f of
                  Raised e f' \<Rightarrow> Raised e (st1\<lparr>files := f'\<rparr>)
                | Returned u' f' \<Rightarrow>
                    Returned ()
                      (say (''python: files='' @
                            str_int (int (length (rglob_ending f' python_out ''.txt''))))
                         (st1\<lparr>files := f'\<rparr>))))"

definition javascript_raw_txt :: path where
  "javascript_raw_txt = [''languages'', ''javascript'', ''raw'', ''ecma262'', ''ecma262.txt'']"

definition javascript_out_dir :: path where
  "javascript_out_dir = [''languages'', ''javascript'', ''docs'', ''ecma-262'']"

text \<open>Path.stat().st\_size\<close>

definition st_size :: "path \<Rightarrow> fs \<Rightarrow> (int, fs) result" where
  "st_size p fs =
     (case lookup fs p of
        None \<Rightarrow> Raised FileNotFoundError fs
      | Some Dir \<Rightarrow> Returned 0 fs
      | Some (File c m) \<Rightarrow> Returned (int (length c)) fs)"

definition build_javascript :: "state \<Rightarrow> (unit, state) result" where
  "build_javascript st =
     (if \<not> path_exists (files st) javascript_raw_txt then
        Raised (SystemExit ''JS raw ecma262.txt not found. Run: ./rag-ml/kb/pull-docs.sh'') st
      else
        let st1 = say ''javascript: copy ecma262.txt -> docs/ecma-262/'' st
        in case reset_dir javascript_out_dir (files st1) of
             Raised e f \<Rightarrow> Raised e (st1\<lparr>files := f\<rparr>)
           | Returned u f \<Rightarrow>
               (case copy2 javascript_raw_txt (javascript_out_dir @ [''ecma262.txt'']) f of
                  Raised e f' \<Rightarrow> Raised e (st1\<lparr>files := f'\<rparr>)
                | Returned u' f' \<Rightarrow>
                    (case st_size (javascript_out_dir @ [''ecma262.txt'']) f' of
                       Raised e f'' \<Rightarrow> Raised e (st1\<lparr>files := f''\<rparr>)
                     | Returned n f'' \<Rightarrow>
                         Returned ()
                           (say (''javascript: bytes='' @ str_int n) (st1\<lparr>files := f''\<rparr>)))))"

definition swift_raw :: path where
  "swift_raw = [''languages'', ''swift'', ''raw'', ''swift-book'']"

definition swift_out :: path where
  "swift_out = [''languages'', ''swift'', ''docs'', ''swift-book-repo'']"

definition build_swift :: "state \<Rightarrow> (unit, state) result" where
  "build_swift st =
     (if \<not> path_exists (files st) swift_raw then
        Raised (SystemExit ''Swift raw swift-book not found. Run: ./rag-ml/kb/pull-docs.sh'') st
      else
        let st1 = say ''swift: copy TSPL.docc markdown -> docs/swift-book-repo/'' st
        in case reset_dir swift_out (files st1) of
             Raised e f \<Rightarrow> Raised e (st1\<lparr>files := f\<rparr>)
           | Returned u f \<Rightarrow>
               (case copy_matching_files (swift_raw @ [''TSPL.docc'']) (swift_out @ [''TSPL.docc''])
                       [''.md''] f of
                  Raised e f' \<Rightarrow> Raised e (st1\<lparr>files := f'\<rparr>)
                | Returned copied f' \<Rightarrow>
                    (case (if path_exists f' (swift_raw @ [''LICENSE.txt''])
                           then copy2 (swift_raw @ [''LICENSE.txt'']) (swift_out @ [''LICENSE.txt'']) f'
                           else Returned () f') of
                       Raised e f'' \<Rightarrow> Raised e (st1\<lparr>files := f''\<rparr>)
                     | Returned u' f'' \<Rightarrow>
                         Returned ()
                           (say (''swift: md_files='' @ str_int copied) (st1\<lparr>files := f''\<rparr>)))))"

section \<open>main\<close>

text \<open>
  The four builds run one after the other; an exception raised by one of them ends the
  process there. None is a run that never ends.
\<close>

definition join_path :: "string list \<Rightarrow> string" where
  "join_path p = (if p = [] then ''/'' else concat (map (\<lambda>c. ''/'' @ c) p))"

definition warn_root :: "env \<Rightarrow> state \<Rightarrow> state" where
  "warn_root env st =
     (if name_of (kb_root env) \<noteq> ''kb''
      then say (''WARN: root looks unusual: '' @ join_path (kb_root env)) st
      else st)"

definition main :: "env \<Rightarrow> int \<Rightarrow> state \<Rightarrow> (unit, state) result option" where
  "main env cpp_pages_per_file st0 =
     (let st = warn_root env st0
      in case build_python st of
           Raised e s \<Rightarrow> Some (Raised e s)
         | Returned u1 s1 \<Rightarrow>
             (case build_javascript s1 of
                Raised e s \<Rightarrow> Some (Raised e s)
              | Returned u2 s2 \<Rightarrow>
                  (case build_swift s2 of
                     Raised e s \<Rightarrow> Some (Raised e s)
                   | Returned u3 s3 \<Rightarrow>
                       (case build_cpp env cpp_pages_per_file s3 of
                          None \<Rightarrow> None
                        | Some (Raised e s) \<Rightarrow> Some (Raised e s)
                        | Some (Returned u4 s4) \<Rightarrow> Some (Returned () (say ''done'' s4))))))"

text \<open>The exit status of the process: zero when main returns, non-zero when it raised.\<close>

definition exit_status :: "(unit, state) result \<Rightarrow> int" where
  "exit_status r = (case r of Returned u s \<Rightarrow> 0 | Raised e s \<Rightarrow> 1)"

definition missing :: "fs \<Rightarrow> path list \<Rightarrow> path list" where
  "missing fs qs = filter (\<lambda>q. lookup fs q = None) qs"

definition creatable :: "fs \<Rightarrow> path \<Rightarrow> bool" where
  "creatable fs p = list_all (\<lambda>q. \<not> is_file fs q) (prefixes p)"

definition cleared :: "path \<Rightarrow> fs \<Rightarrow> fs" where
  "cleared p fs = (if path_exists fs p then filter (\<lambda>e. \<not> prefix p (fst e)) fs else fs)"

definition wf_fs :: "fs \<Rightarrow> bool" where
  "wf_fs fs = (distinct (map fst fs) \<and> list_all (\<lambda>q. q = [] \<or> is_dir fs (butlast q)) (map fst fs))"

definition page_block :: "string option list \<Rightarrow> int \<Rightarrow> string" where
  "page_block pages i = page_marker i @ page_text (pages ! nat i)"

definition batch_text :: "string option list \<Rightarrow> int \<Rightarrow> int \<Rightarrow> string" where
  "batch_text pages s e = concat (map (page_block pages) [s..e])"

definition cpp_ready :: "fs \<Rightarrow> bool" where
  "cpp_ready fs = (is_dir fs cpp_out_dir \<and> (\<forall>n. lookup fs (cpp_out_dir @ [n]) \<noteq> Some Dir))"

definition n_batches :: "int \<Rightarrow> int \<Rightarrow> nat" where
  "n_batches T k = nat ((T + k - 1) div k)"

definition batch_first :: "int \<Rightarrow> nat \<Rightarrow> int" where
  "batch_first k j = int j * k"

definition batch_last :: "int \<Rightarrow> int \<Rightarrow> nat \<Rightarrow> int" where
  "batch_last T k j = min (T - 1) (int j * k + k - 1)"

definition batch_step :: "meta \<Rightarrow> string option list \<Rightarrow> int \<Rightarrow> state \<Rightarrow> nat \<Rightarrow> state" where
  "batch_step m pages k st j =
     (let s = batch_first k j; e = batch_last (int (length pages)) k j
      in (say (''cpp: write '' @ out_name s e) st)
           \<lparr>files := AList.update (cpp_out_dir @ [out_name s e])
                       (File (batch_text pages s e) m) (files st)\<rparr>)"

definition digit_val :: "char \<Rightarrow> nat" where
  "digit_val c = of_char c - 48"

definition decimal_val :: "string \<Rightarrow> nat" where
  "decimal_val s = foldl (\<lambda>a c. 10 * a + digit_val c) 0 s"

definition batch_name :: "int \<Rightarrow> int \<Rightarrow> nat \<Rightarrow> string" where
  "batch_name T k j = out_name (batch_first k j) (batch_last T k j)"

definition reset_result :: "path \<Rightarrow> fs \<Rightarrow> fs" where
  "reset_result p fs = cleared p fs @ map (\<lambda>q. (q, Dir)) (missing (cleared p fs) (prefixes p))"

definition cpp_begin :: "string option list \<Rightarrow> int \<Rightarrow> state \<Rightarrow> state" where
  "cpp_begin pages k st =
     say (''cpp: pages='' @ str_int (int (length pages)) @ '', pages_per_file='' @ str_int k)
       ((say ''cpp: extract pdf -> docs/cpp-working-draft-pdf/ (split by pages)'' st)
          \<lparr>files := reset_result cpp_out_dir (files st)\<rparr>)"

definition demo_state :: state where
  "demo_state =
     \<lparr>files =
        [([], Dir),
         ([''languages''], Dir),
         ([''languages'', ''cpp''], Dir),
         ([''languages'', ''cpp'', ''downloads''], Dir),
         ([''languages'', ''cpp'', ''downloads'', ''cpp-draft.pdf''], File ''%PDF-1.7'' (Meta 100 420))],
      stdout = []\<rparr>"

definition demo_env :: "string option list \<Rightarrow> env" where
  "demo_env pages = \<lparr>kb_root = [''home'', ''dev'', ''rag-ml'', ''kb''], pypdf_installed = True, pdf_reader = (\<lambda>c. Some pages), new_meta = Meta 200 420\<rparr>"

definition state_of :: "('a, 's) result \<Rightarrow> 's" where
  "state_of r = (case r of Returned a s \<Rightarrow> s | Raised e s \<Rightarrow> s)"

definition only_below :: "path \<Rightarrow> fs \<Rightarrow> fs \<Rightarrow> bool" where
  "only_below d f f' =
     (filter (\<lambda>e. \<not> strict_prefix d (fst e)) f' = filter (\<lambda>e. \<not> strict_prefix d (fst e)) f)"

definition anchored :: "path \<Rightarrow> fs \<Rightarrow> bool" where
  "anchored d f = list_all (is_dir f) (prefixes d)"

definition mentions :: "string \<Rightarrow> string \<Rightarrow> bool" where
  "mentions needle s = list_ex (prefix needle) (suffixes s)"

definition fetch_step :: string where
  "fetch_step = ''./rag-ml/kb/pull-docs.sh''"

definition bare_state :: state where
  "bare_state = \<lparr>files = [([], Dir)], stdout = []\<rparr>"

definition untouched :: "path list \<Rightarrow> state \<Rightarrow> state \<Rightarrow> bool" where
  "untouched ds st s = (\<forall>d\<in>set ds. \<forall>q. prefix d q \<longrightarrow> lookup (files s) q = lookup (files st) q)"

definition swift_populate :: "fs \<Rightarrow> fs" where
  "swift_populate f1 =
     (case copy_matching_files (swift_raw @ [''TSPL.docc'']) (swift_out @ [''TSPL.docc'']) [''.md''] f1 of
        Raised e f' \<Rightarrow> f'
      | Returned copied f' \<Rightarrow>
          state_of (if path_exists f' (swift_raw @ [''LICENSE.txt''])
                    then copy2 (swift_raw @ [''LICENSE.txt'']) (swift_out @ [''LICENSE.txt'']) f'
                    else Returned () f'))"

definition full_state :: state where
  "full_state =
     \<lparr>files =
        [([], Dir),
         ([''languages''], Dir),
         ([''languages'', ''python''], Dir),
         ([''languages'', ''python'', ''raw''], Dir),
         ([''languages'', ''python'', ''raw'', ''python-docs-text''], Dir),
         ([''languages'', ''python'', ''raw'', ''python-docs-text'', ''index.txt''],
            File ''Python docs'' (Meta 10 420)),
         ([''languages'', ''python'', ''raw'', ''python-docs-text'', ''library''], Dir),
         ([''languages'', ''python'', ''raw'', ''python-docs-text'', ''library'', ''os.txt''],
            File ''os module'' (Meta 11 420)),
         ([''languages'', ''javascript''], Dir),
         ([''languages'', ''javascript'', ''raw''], Dir),
         ([''languages'', ''javascript'', ''raw'', ''ecma262''], Dir),
         ([''languages'', ''javascript'', ''raw'', ''ecma262'', ''ecma262.txt''],
            File ''ECMAScript'' (Meta 20 420)),
         ([''languages'', ''swift''], Dir),
         ([''languages'', ''swift'', ''raw''], Dir),
         ([''languages'', ''swift'', ''raw'', ''swift-book''], Dir),
         ([''languages'', ''swift'', ''raw'', ''swift-book'', ''LICENSE.txt''],
            File ''Apache'' (Meta 30 420)),
         ([''languages'', ''swift'', ''raw'', ''swift-book'', ''TSPL.docc''], Dir),
         ([''languages'', ''swift'', ''raw'', ''swift-book'', ''TSPL.docc'', ''Guide.MD''],
            File ''guide'' (Meta 31 420)),
         ([''languages'', ''swift'', ''raw'', ''swift-book'', ''TSPL.docc'', ''logo.png''],
            File ''png'' (Meta 32 420)),
         ([''languages'', ''cpp''], Dir),
         ([''languages'', ''cpp'', ''downloads''], Dir),
         ([''languages'', ''cpp'', ''downloads'', ''cpp-draft.pdf''],
            File ''%PDF-1.7'' (Meta 40 420))],
      stdout = []\<rparr>"

definition returned :: "('a, 's) result \<Rightarrow> bool" where
  "returned r = (case r of Returned a s \<Rightarrow> True | Raised e s \<Rightarrow> False)"

definition upto_language :: "nat \<Rightarrow> state" where
  "upto_language n = full_state\<lparr>files := take n (files full_state)\<rparr>"




definition cpp_enter :: "string option list \<Rightarrow> int \<Rightarrow> state \<Rightarrow> fs \<Rightarrow> state" where
  "cpp_enter pages k st f1 =
     say (''cpp: pages='' @ str_int (int (length pages)) @ '', pages_per_file='' @ str_int k)
       ((say ''cpp: extract pdf -> docs/cpp-working-draft-pdf/ (split by pages)'' st)
          \<lparr>files := f1\<rparr>)"




lemmas listdir_unfold = listdir_def children_def

lemma lookup_update: "lookup (AList.update p v fs) q = (if q = p then Some v else lookup fs q)"
  by (simp add: lookup_def update_conv')

lemma lookup_snoc:
  "lookup (fs @ [(q, v)]) r = (case lookup fs r of Some w \<Rightarrow> Some w | None \<Rightarrow> if r = q then Some v else None)"
  by (simp add: lookup_def map_add_def split: option.splits)

lemma lookup_filter:
  "lookup (filter (\<lambda>e. P (fst e)) fs) q = (if P q then lookup fs q else None)"
  by (simp add: lookup_def map_of_filter restrict_map_def)

lemma lookup_None_iff: "lookup fs q = None \<longleftrightarrow> q \<notin> set (map fst fs)"
  by (simp add: lookup_def map_of_eq_None_iff)

lemma keys_update:
  "map fst (AList.update p v fs) = (if lookup fs p = None then map fst fs @ [p] else map fst fs)"
  by (simp add: update_keys lookup_None_iff)

lemma listdir_update:
  "listdir (AList.update (d @ [n]) v fs) d =
     (if lookup fs (d @ [n]) = None then listdir fs d @ [n] else listdir fs d)"
  by (simp add: listdir_unfold keys_update)

lemma listdir_update_other:
  "butlast p \<noteq> d \<or> p = [] \<Longrightarrow> listdir (AList.update p v fs) d = listdir fs d"
  by (auto simp add: listdir_unfold keys_update)

lemma in_listdir_iff: "n \<in> set (listdir fs d) \<longleftrightarrow> lookup fs (d @ [n]) \<noteq> None"
proof -
  have "n \<in> set (listdir fs d) \<longleftrightarrow> (d @ [n]) \<in> set (map fst fs)"
    unfolding listdir_unfold
    by (auto simp: image_iff snoc_eq_iff_butlast intro!: bexI)
  then show ?thesis by (simp add: lookup_None_iff)
qed

lemma is_file_iff: "is_file fs q \<longleftrightarrow> (\<exists>c m. lookup fs q = Some (File c m))"
  by (auto simp: is_file_def split: option.splits node.splits)

lemma not_is_file_cases: "\<not> is_file fs q \<Longrightarrow> lookup fs q = None \<or> lookup fs q = Some Dir"
  by (cases "lookup fs q") (auto simp: is_file_def split: node.splits)

lemma mkdirs_ok:
  assumes "distinct qs" "\<forall>q\<in>set qs. \<not> is_file fs q"
  shows "mkdirs t qs fs = Returned () (fs @ map (\<lambda>q. (q, Dir)) (missing fs qs))"
  using assms
proof (induction qs arbitrary: fs)
  case Nil
  then show ?case by (simp add: missing_def)
next
  case (Cons q qs)
  from Cons.prems have nf: "\<not> is_file fs q" and d: "q \<notin> set qs" "distinct qs"
    and rest: "\<forall>r\<in>set qs. \<not> is_file fs r" by auto
  show ?case
  proof (cases "lookup fs q")
    case None
    let ?fs1 = "fs @ [(q, Dir)]"
    have same: "\<And>r. r \<in> set qs \<Longrightarrow> lookup ?fs1 r = lookup fs r"
      using d by (auto simp: lookup_snoc split: option.splits)
    have "\<forall>r\<in>set qs. \<not> is_file ?fs1 r"
      using rest same by (simp add: is_file_def)
    from Cons.IH [OF d(2) this]
    have "mkdirs t qs ?fs1 = Returned () (?fs1 @ map (\<lambda>q. (q, Dir)) (missing ?fs1 qs))" .
    moreover have "missing ?fs1 qs = missing fs qs"
      unfolding missing_def using same by (intro filter_cong) auto
    ultimately show ?thesis using None
      by (simp add: mkdir1_def missing_def)
  next
    case (Some v)
    with nf have "v = Dir" by (cases v) (auto simp: is_file_def)
    with Some Cons.IH [OF d(2) rest] show ?thesis
      by (simp add: mkdir1_def missing_def)
  qed
qed

lemma mkdir_parents_ok:
  "creatable fs p \<Longrightarrow> mkdir_parents p fs = Returned () (fs @ map (\<lambda>q. (q, Dir)) (missing fs (prefixes p)))"
  unfolding mkdir_parents_def creatable_def
  by (rule mkdirs_ok) (auto simp: list_all_iff)

lemma lookup_app_dirs:
  "lookup (fs @ map (\<lambda>q. (q, Dir)) (missing fs qs)) r =
     (if r \<in> set qs \<and> lookup fs r = None then Some Dir else lookup fs r)"
proof -
  have "map_of (map (\<lambda>q. (q, Dir)) (missing fs qs)) r =
        (if r \<in> set qs \<and> lookup fs r = None then Some Dir else None)"
    by (induction qs) (auto simp: missing_def)
  then show ?thesis
    by (auto simp: lookup_def map_add_def split: option.splits)
qed

lemma lookup_rm:
  "lookup (filter (\<lambda>e. \<not> prefix p (fst e)) fs) q = (if prefix p q then None else lookup fs q)"
  using lookup_filter [where P = "\<lambda>q. \<not> prefix p q"] by simp

lemma lookup_cleared:
  "lookup (cleared p fs) q = (if path_exists fs p \<and> prefix p q then None else lookup fs q)"
  by (simp add: cleared_def lookup_rm)

lemma creatable_cleared: "creatable fs p \<Longrightarrow> creatable (cleared p fs) p"
  by (auto simp: creatable_def list_all_iff is_file_def lookup_cleared)

lemma reset_dir_ok:
  assumes "creatable fs p"
  shows "reset_dir p fs =
           Returned () (cleared p fs @ map (\<lambda>q. (q, Dir)) (missing (cleared p fs) (prefixes p)))"
proof (cases "path_exists fs p")
  case True
  from assms have "\<not> is_file fs p" by (simp add: creatable_def list_all_iff)
  with True have "lookup fs p = Some Dir"
    using not_is_file_cases [of fs p] by (auto simp: path_exists_def)
  then have "rmtree p fs = Returned () (cleared p fs)"
    using True by (simp add: rmtree_def cleared_def)
  with True mkdir_parents_ok [OF creatable_cleared [OF assms]] show ?thesis
    by (simp add: reset_dir_def)
next
  case False
  then have "cleared p fs = fs" by (simp add: cleared_def)
  with False mkdir_parents_ok [OF assms] show ?thesis
    by (simp add: reset_dir_def)
qed

lemma write_text_file:
  "lookup fs p = Some (File c m) \<Longrightarrow> write_text p s fs = AList.update p (File (c @ s) m) fs"
  by (simp add: write_text_def)

lemma write_pages_ok:
  assumes "lookup fs p = Some (File c m)" "\<forall>i\<in>set is. 0 \<le> i \<and> i < int (length pages)"
  shows "write_pages pages p is fs =
           Returned () (AList.update p (File (c @ concat (map (page_block pages) is)) m) fs)"
  using assms
proof (induction "is" arbitrary: fs c)
  case Nil
  then have "AList.update p (File c m) fs = fs"
    by (simp add: lookup_def update_triv)
  then show ?case by simp
next
  case (Cons i "is")
  from Cons.prems have i: "0 \<le> i" "i < int (length pages)" by auto
  then have idx: "py_index pages i = Some (pages ! nat i)"
    by (simp add: py_index_def Let_def)
  let ?f1 = "AList.update p (File (c @ page_block pages i) m) fs"
  have step: "write_page pages p i fs = Returned () ?f1"
    using Cons.prems(1) idx
    by (simp add: write_page_def write_text_file lookup_update update_last page_block_def)
  have "lookup ?f1 p = Some (File (c @ page_block pages i) m)"
    by (simp add: lookup_update)
  from Cons.IH [OF this] Cons.prems(2)
  have "write_pages pages p is ?f1 =
          Returned () (AList.update p (File ((c @ page_block pages i) @ concat (map (page_block pages) is)) m) ?f1)"
    by simp
  with step show ?case by (simp add: update_last)
qed

lemma write_batch_ok:
  assumes "is_dir (files st) cpp_out_dir"
    and "lookup (files st) (cpp_out_dir @ [out_name s e]) \<noteq> Some Dir"
    and "\<forall>i\<in>set [s..e]. 0 \<le> i \<and> i < int (length pages)"
  shows "write_batch m pages s e st =
           Returned () ((say (''cpp: write '' @ out_name s e) st)
              \<lparr>files := AList.update (cpp_out_dir @ [out_name s e])
                          (File (batch_text pages s e) m) (files st)\<rparr>)"
proof -
  let ?p = "cpp_out_dir @ [out_name s e]"
  let ?f0 = "AList.update ?p (File [] m) (files st)"
  have op: "open_w m ?p (files st) = Returned () ?f0"
    using assms(1,2)
    by (cases "lookup (files st) ?p") (auto simp: open_w_def put_file_def is_dir_def split: node.splits)
  have "lookup ?f0 ?p = Some (File [] m)" by (simp add: lookup_update)
  from write_pages_ok [OF this assms(3)]
  have "write_pages pages ?p [s..e] ?f0 =
          Returned () (AList.update ?p (File (batch_text pages s e) m) (files st))"
    by (simp add: update_last batch_text_def)
  with op show ?thesis
    by (simp add: write_batch_def Let_def say_def)
qed

lemma cpp_ready_update:
  "cpp_ready fs \<Longrightarrow> cpp_ready (AList.update (cpp_out_dir @ [n]) (File c m) fs)"
  by (simp add: cpp_ready_def is_dir_def lookup_update)


lemma le_zdiv_iff:
  fixes a c k :: int
  assumes "0 < k"
  shows "c \<le> a div k \<longleftrightarrow> c * k \<le> a"
proof
  assume "c \<le> a div k"
  then have "c * k \<le> (a div k) * k" using assms by (simp add: mult_right_mono)
  also have "\<dots> \<le> a"
    using assms by (metis add.commute add_increasing div_mult_mod_eq order_refl pos_mod_sign)
  finally show "c * k \<le> a" .
next
  assume "c * k \<le> a"
  then have "(c * k) div k \<le> a div k" using assms by (rule zdiv_mono1)
  then show "c \<le> a div k" using assms by simp
qed

lemma less_n_batches_iff:
  assumes "1 \<le> k" 
  shows "j < n_batches T k \<longleftrightarrow> int j * k < T"
proof -
  have "j < n_batches T k \<longleftrightarrow> int j < (T + k - 1) div k"
    by (auto simp: n_batches_def)
  also have "\<dots> \<longleftrightarrow> int j + 1 \<le> (T + k - 1) div k" by auto
  also have "\<dots> \<longleftrightarrow> (int j + 1) * k \<le> T + k - 1"
    using assms by (simp add: le_zdiv_iff)
  also have "\<dots> \<longleftrightarrow> int j * k < T" by (auto simp: algebra_simps)
  finally show ?thesis .
qed

lemma cpp_loop_runs:
  assumes k: "1 \<le> k"
    and "j \<le> n_batches (int (length pages)) k"
    and "j < n_batches (int (length pages)) k \<longrightarrow> start = int j * k"
    and "j = n_batches (int (length pages)) k \<longrightarrow> int (length pages) \<le> start"
    and "cpp_ready (files st)"
  shows "cpp_loop m pages k start st =
           Some (Returned () (foldl (batch_step m pages k) st [j ..< n_batches (int (length pages)) k]))"
  using assms(2-)
proof (induction "n_batches (int (length pages)) k - j" arbitrary: j start st)
  case 0
  then have "j = n_batches (int (length pages)) k" by simp
  with 0 show ?case by (subst cpp_loop.simps) simp
next
  case (Suc d)
  let ?T = "int (length pages)"
  let ?n = "n_batches ?T k"
  from Suc.hyps(2) have jn: "j < ?n" by simp
  with Suc.prems have start: "start = int j * k" by simp
  from jn have lt: "int j * k < ?T" using k by (simp add: less_n_batches_iff)
  let ?e = "min (?T - 1) (start + k - 1)"
  have e: "?e = batch_last ?T k j" by (simp add: batch_last_def start)
  have s: "start = batch_first k j" by (simp add: batch_first_def start)
  have "0 \<le> start" using start k by simp
  then have rng: "\<forall>i\<in>set [start..?e]. 0 \<le> i \<and> i < ?T" by auto
  from Suc.prems(4) have rd: "is_dir (files st) cpp_out_dir"
    "lookup (files st) (cpp_out_dir @ [out_name start ?e]) \<noteq> Some Dir"
    by (auto simp: cpp_ready_def)
  have wb: "write_batch m pages start ?e st = Returned () (batch_step m pages k st j)"
    using write_batch_ok [OF rd rng, of m] by (simp add: batch_step_def Let_def e [symmetric] s [symmetric])
  have ready': "cpp_ready (files (batch_step m pages k st j))"
    using Suc.prems(4) by (simp add: batch_step_def Let_def cpp_ready_update)
  have next_lt: "Suc j < ?n \<longrightarrow> ?e + 1 = int (Suc j) * k"
  proof
    assume "Suc j < ?n"
    then have "int (Suc j) * k < ?T" using k by (simp add: less_n_batches_iff)
    then show "?e + 1 = int (Suc j) * k" by (simp add: start algebra_simps)
  qed
  have next_eq: "Suc j = ?n \<longrightarrow> ?T \<le> ?e + 1"
  proof
    assume "Suc j = ?n"
    then have "\<not> Suc j < ?n" by simp
    then have "\<not> int (Suc j) * k < ?T" using k by (simp add: less_n_batches_iff)
    then show "?T \<le> ?e + 1" by (simp add: start algebra_simps)
  qed
  have d: "d = ?n - Suc j" using Suc.hyps(2) by simp
  have sj: "Suc j \<le> ?n" using jn by simp
  from Suc.hyps(1) [OF d sj next_lt next_eq ready']
  have "cpp_loop m pages k (?e + 1) (batch_step m pages k st j) =
          Some (Returned () (foldl (batch_step m pages k) (batch_step m pages k st j) [Suc j ..< ?n]))" .
  moreover have "[j ..< ?n] = j # [Suc j ..< ?n]" using jn by (simp add: upt_conv_Cons)
  ultimately show ?case
    using lt wb by (subst cpp_loop.simps) (simp add: start)
qed

lemma digit_char_cases:
  assumes "d < 10"
  shows "d = 0 \<or> d = 1 \<or> d = 2 \<or> d = 3 \<or> d = 4 \<or> d = 5 \<or> d = 6 \<or> d = 7 \<or> d = 8 \<or> d = (9::nat)"
  using assms by arith

lemma digit_val_digit_char: "d < 10 \<Longrightarrow> digit_val (digit_char d) = d"
  using digit_char_cases [of d] by (auto simp: digit_val_def digit_char_def)

lemma digit_char_in: "d < 10 \<Longrightarrow> digit_char d \<in> set ''0123456789''"
  using digit_char_cases [of d] by (auto simp: digit_char_def)

lemma decimal_val_snoc: "decimal_val (s @ [c]) = 10 * decimal_val s + digit_val c"
  by (simp add: decimal_val_def)

lemma decimal_val_digits: "decimal_val (digits n) = n"
proof (induction n rule: digits.induct)
  case (1 n)
  show ?case
  proof (cases "n < 10")
    case True
    then show ?thesis
      by (subst digits.simps) (simp add: decimal_val_def digit_val_digit_char)
  next
    case False
    with 1 have "decimal_val (digits (n div 10)) = n div 10" by simp
    with False show ?thesis
      by (subst digits.simps) (simp add: decimal_val_snoc digit_val_digit_char)
  qed
qed

lemma digits_chars: "set (digits n) \<subseteq> set ''0123456789''"
proof (induction n rule: digits.induct)
  case (1 n)
  show ?case
  proof (cases "n < 10")
    case True
    then show ?thesis using digit_char_in [of n]
      by (subst digits.simps) simp
  next
    case False
    with 1 have "set (digits (n div 10)) \<subseteq> set ''0123456789''" by simp
    moreover have "digit_char (n mod 10) \<in> set ''0123456789''"
      by (rule digit_char_in) simp
    ultimately show ?thesis using False
      by (subst digits.simps) simp
  qed
qed

lemma decimal_val_zeros: "decimal_val (replicate z (CHR ''0'') @ s) = decimal_val s"
proof -
  have "foldl (\<lambda>a c. 10 * a + digit_val c) 0 (replicate z (CHR ''0'')) = 0"
    by (induction z) (simp_all add: digit_val_def)
  then show ?thesis by (simp add: decimal_val_def)
qed

lemma decimal_val_fmt04d: "0 \<le> n \<Longrightarrow> decimal_val (fmt04d n) = nat n"
  by (simp add: fmt04d_def zero_pad_def decimal_val_zeros decimal_val_digits)

lemma fmt04d_chars: "0 \<le> n \<Longrightarrow> set (fmt04d n) \<subseteq> set ''0123456789''"
  using digits_chars [of "nat n"] by (auto simp: fmt04d_def zero_pad_def)

lemma fmt04d_no_dash: "0 \<le> n \<Longrightarrow> CHR ''-'' \<notin> set (fmt04d n)"
  using fmt04d_chars [of n] by auto

lemma sep_split:
  assumes "xs @ c # r = xs' @ c # r'" "c \<notin> set xs" "c \<notin> set xs'"
  shows "xs = xs'"
proof -
  have "takeWhile (\<lambda>x. x \<noteq> c) (xs @ c # r) = xs" using assms(2)
    by (auto simp add: takeWhile_tail)
  moreover have "takeWhile (\<lambda>x. x \<noteq> c) (xs' @ c # r') = xs'" using assms(3)
    by (auto simp add: takeWhile_tail)
  ultimately show ?thesis using assms(1) by simp
qed

lemma out_name_inj:
  assumes "out_name s e = out_name s' e'" "0 \<le> s" "0 \<le> s'"
  shows "s = s'"
proof -
  from assms(1) have "fmt04d (s + 1) @ CHR ''-'' # (''p'' @ fmt04d (e + 1) @ ''.txt'')
      = fmt04d (s' + 1) @ CHR ''-'' # (''p'' @ fmt04d (e' + 1) @ ''.txt'')"
    by (simp add: out_name_def)
  then have "fmt04d (s + 1) = fmt04d (s' + 1)"
    by (rule sep_split) (use assms(2,3) in \<open>simp_all add: fmt04d_no_dash\<close>)
  then have "decimal_val (fmt04d (s + 1)) = decimal_val (fmt04d (s' + 1))" by simp
  then show ?thesis using assms(2,3) by (simp add: decimal_val_fmt04d)
qed

lemma batch_name_inj: "1 \<le> k \<Longrightarrow> inj (batch_name T k)"
proof (rule injI)
  fix i j assume k: "1 \<le> k" and eq: "batch_name T k i = batch_name T k j"
  have "batch_first k i = batch_first k j"
    by (rule out_name_inj [OF eq [unfolded batch_name_def]]) (use k in \<open>simp_all add: batch_first_def\<close>)
  then show "i = j" using k by (simp add: batch_first_def)
qed

lemma files_batch_step:
  "files (batch_step m pages k st j) =
     AList.update (cpp_out_dir @ [batch_name (int (length pages)) k j])
       (File (batch_text pages (batch_first k j) (batch_last (int (length pages)) k j)) m) (files st)"
  by (simp add: batch_step_def Let_def batch_name_def say_def)

lemma lookup_batches_other:
  "q \<notin> (\<lambda>j. cpp_out_dir @ [batch_name (int (length pages)) k j]) ` set js \<Longrightarrow>
   lookup (files (foldl (batch_step m pages k) st js)) q = lookup (files st) q"
  by (induction js arbitrary: st) (auto simp: files_batch_step lookup_update)

lemma lookup_batches_written:
  assumes "1 \<le> k" "j \<in> set js" "distinct js"
  shows "lookup (files (foldl (batch_step m pages k) st js)) (cpp_out_dir @ [batch_name (int (length pages)) k j])
         = Some (File (batch_text pages (batch_first k j) (batch_last (int (length pages)) k j)) m)"
  using assms(2,3)
proof (induction js arbitrary: st)
  case Nil
  then show ?case by simp
next
  case (Cons i js)
  show ?case
  proof (cases "j = i")
    case True
    with Cons.prems have "j \<notin> set js" by simp
    then have "cpp_out_dir @ [batch_name (int (length pages)) k j]
         \<notin> (\<lambda>j. cpp_out_dir @ [batch_name (int (length pages)) k j]) ` set js"
      using batch_name_inj [OF assms(1), of "int (length pages)"] by (auto dest: injD)
    from lookup_batches_other [OF this] True show ?thesis
      by (simp add: files_batch_step lookup_update)
  next
    case False
    with Cons show ?thesis by simp
  qed
qed

lemma listdir_batches:
  assumes "1 \<le> k" "distinct js"
    "\<forall>j\<in>set js. lookup (files st) (cpp_out_dir @ [batch_name (int (length pages)) k j]) = None"
  shows "listdir (files (foldl (batch_step m pages k) st js)) cpp_out_dir
         = listdir (files st) cpp_out_dir @ map (batch_name (int (length pages)) k) js"
  using assms(2,3)
proof (induction js arbitrary: st)
  case Nil
  then show ?case by simp
next
  case (Cons i js)
  let ?st1 = "batch_step m pages k st i"
  have "\<forall>j\<in>set js. lookup (files ?st1) (cpp_out_dir @ [batch_name (int (length pages)) k j]) = None"
  proof
    fix j assume j: "j \<in> set js"
    with Cons.prems have "j \<noteq> i" by auto
    then have "batch_name (int (length pages)) k j \<noteq> batch_name (int (length pages)) k i"
      using batch_name_inj [OF assms(1), of "int (length pages)"] by (auto dest: injD)
    with j Cons.prems show "lookup (files ?st1) (cpp_out_dir @ [batch_name (int (length pages)) k j]) = None"
      by (simp add: files_batch_step lookup_update)
  qed
  with Cons.IH [of ?st1] Cons.prems
  have "listdir (files (foldl (batch_step m pages k) ?st1 js)) cpp_out_dir
         = listdir (files ?st1) cpp_out_dir @ map (batch_name (int (length pages)) k) js"
    by simp
  moreover have "listdir (files ?st1) cpp_out_dir
         = listdir (files st) cpp_out_dir @ [batch_name (int (length pages)) k i]"
    using Cons.prems by (simp add: files_batch_step listdir_update)
  ultimately show ?case by simp
qed

lemma wf_ancestor_dir:
  assumes "wf_fs fs" "lookup fs q \<noteq> None" "strict_prefix p q"
  shows "is_dir fs p"
  using assms(2,3)
proof (induction q rule: rev_induct)
  case Nil
  then show ?case by simp
next
  case (snoc x q)
  from snoc.prems(1) have "q @ [x] \<in> set (map fst fs)" by (simp add: lookup_None_iff)
  with assms(1) have "q @ [x] = [] \<or> is_dir fs (butlast (q @ [x]))"
    unfolding wf_fs_def list_all_iff by blast
  then have par: "is_dir fs q" by simp
  from snoc.prems(2) have "prefix p q" by (auto simp: strict_prefix_def)
  then have "p = q \<or> strict_prefix p q" by (auto simp: strict_prefix_def)
  then show ?case
  proof
    assume "p = q" with par show ?thesis by simp
  next
    assume "strict_prefix p q"
    moreover from par have "lookup fs q \<noteq> None" by (simp add: is_dir_def)
    ultimately show ?thesis by (rule snoc.IH [rotated])
  qed
qed

lemma lookup_reset_result:
  "lookup (reset_result p fs) r =
     (if r \<in> set (prefixes p) \<and> lookup (cleared p fs) r = None then Some Dir
      else lookup (cleared p fs) r)"
  by (simp add: reset_result_def lookup_app_dirs)

lemma reset_result_is_dir: "creatable fs p \<Longrightarrow> is_dir (reset_result p fs) p"
proof -
  assume c: "creatable fs p"
  then have "\<not> is_file fs p" by (simp add: creatable_def list_all_iff)
  then have "lookup fs p = None \<or> lookup fs p = Some Dir" by (rule not_is_file_cases)
  then show ?thesis
    by (auto simp: is_dir_def lookup_reset_result lookup_cleared path_exists_def)
qed

lemma reset_result_empty:
  assumes "wf_fs fs" "strict_prefix p r"
  shows "lookup (reset_result p fs) r = None"
proof -
  from assms(2) have np: "r \<notin> set (prefixes p)"
    by (auto simp: in_set_prefixes strict_prefix_def dest: prefix_order.antisym)
  show ?thesis
  proof (cases "path_exists fs p")
    case True
    with np assms(2) show ?thesis
      by (simp add: lookup_reset_result lookup_cleared strict_prefix_def)
  next
    case False
    have "lookup fs r = None"
    proof (rule ccontr)
      assume "lookup fs r \<noteq> None"
      from wf_ancestor_dir [OF assms(1) this assms(2)] False show False
        by (simp add: is_dir_def path_exists_def)
    qed
    with np False show ?thesis
      by (simp add: lookup_reset_result lookup_cleared)
  qed
qed

lemma reset_result_other:
  "\<not> prefix p r \<Longrightarrow> \<not> prefix r p \<Longrightarrow> lookup (reset_result p fs) r = lookup fs r"
  by (simp add: lookup_reset_result lookup_cleared in_set_prefixes)

lemma listdir_empty_iff: "listdir fs d = [] \<longleftrightarrow> (\<forall>n. lookup fs (d @ [n]) = None)"
proof -
  have "listdir fs d = [] \<longleftrightarrow> set (listdir fs d) = {}" by simp
  also have "\<dots> \<longleftrightarrow> (\<forall>n. n \<notin> set (listdir fs d))" by auto
  also have "\<dots> \<longleftrightarrow> (\<forall>n. lookup fs (d @ [n]) = None)"
    by (simp add: in_listdir_iff)
  finally show ?thesis .
qed

lemma reset_result_ready:
  assumes "wf_fs fs" "creatable fs cpp_out_dir"
  shows "cpp_ready (reset_result cpp_out_dir fs)"
proof -
  have "lookup (reset_result cpp_out_dir fs) (cpp_out_dir @ [n]) = None" for n
    by (rule reset_result_empty [OF assms(1)]) (simp add: strict_prefix_def)
  with reset_result_is_dir [OF assms(2)] show ?thesis
    by (simp add: cpp_ready_def)
qed

lemma ceil_div:
  fixes T k :: int
  assumes "0 < k"
  shows "\<lceil>real_of_int T / real_of_int k\<rceil> = (T + k - 1) div k"
proof (rule ceiling_unique)
  define n where "n = (T + k - 1) div k"
  define r where "r = (T + k - 1) mod k"
  have eq: "T + k - 1 = n * k + r" by (simp add: n_def r_def)
  have r: "0 \<le> r" "r < k" using assms by (simp_all add: r_def)
  from eq r have lo: "(n - 1) * k < T" by (simp add: algebra_simps)
  from eq r have hi: "T \<le> n * k" by (simp add: algebra_simps)
  from lo have "real_of_int ((n - 1) * k) < real_of_int T" by (simp only: of_int_less_iff)
  then have "(real_of_int n - 1) * real_of_int k < real_of_int T" by simp
  then have "real_of_int n - 1 < real_of_int T / real_of_int k"
    using assms by (simp only: pos_less_divide_eq of_int_0_less_iff)
  then show "real_of_int ((T + k - 1) div k) - 1 < real_of_int T / real_of_int k"
    by (simp only: n_def)
  from hi have "real_of_int T \<le> real_of_int (n * k)" by (simp only: of_int_le_iff)
  then show "real_of_int T / real_of_int k \<le> real_of_int ((T + k - 1) div k)"
    using assms by (simp add: pos_divide_le_eq n_def)
qed

lemma files_say [simp]: "files (say msg st) = files st"
  by (simp add: say_def)

lemma files_cpp_begin [simp]: "files (cpp_begin pages k st) = reset_result cpp_out_dir (files st)"
  by (simp add: cpp_begin_def)

lemma build_cpp_reaches_loop:
  assumes "pypdf_installed env"
    and "lookup (files st) cpp_pdf_path = Some (File c mt)"
    and "pdf_reader env c = Some pages"
    and "creatable (files st) cpp_out_dir"
  shows "build_cpp env k st = cpp_loop (new_meta env) pages k 0 (cpp_begin pages k st)"
proof -
  have ex: "path_exists (files st) cpp_pdf_path"
    using assms(2) by (simp add: path_exists_def)
  have rs: "reset_dir cpp_out_dir (files st) = Returned () (reset_result cpp_out_dir (files st))"
    using reset_dir_ok [OF assms(4)] by (simp add: reset_result_def)
  have "lookup (reset_result cpp_out_dir (files st)) cpp_pdf_path = lookup (files st) cpp_pdf_path"
    by (rule reset_result_other) (simp_all add: cpp_out_dir_def cpp_pdf_path_def)
  then have rd: "PdfReader env cpp_pdf_path (reset_result cpp_out_dir (files st)) = Some pages"
    using assms(2,3) by (simp add: PdfReader_def)
  show ?thesis
    using assms(1) ex rs rd by (simp add: build_cpp_def Let_def cpp_begin_def)
qed

lemma build_cpp_runs:
  assumes "pypdf_installed env"
    and "lookup (files st) cpp_pdf_path = Some (File c mt)"
    and "pdf_reader env c = Some pages"
    and "1 \<le> k"
    and "wf_fs (files st)"
    and "creatable (files st) cpp_out_dir"
  shows "build_cpp env k st =
           Some (Returned () (foldl (batch_step (new_meta env) pages k) (cpp_begin pages k st)
                                [0 ..< n_batches (int (length pages)) k]))"
proof -
  have "cpp_ready (files (cpp_begin pages k st))"
    using reset_result_ready [OF assms(5,6)] by simp
  then have "cpp_loop (new_meta env) pages k 0 (cpp_begin pages k st) =
           Some (Returned () (foldl (batch_step (new_meta env) pages k) (cpp_begin pages k st)
                                [0 ..< n_batches (int (length pages)) k]))"
  proof (intro cpp_loop_runs)
    show "1 \<le> k" by (rule assms(4))
    show "0 \<le> n_batches (int (length pages)) k" by simp
    show "0 < n_batches (int (length pages)) k \<longrightarrow> 0 = int 0 * k" by simp
    show "0 = n_batches (int (length pages)) k \<longrightarrow> int (length pages) \<le> 0"
      using less_n_batches_iff [OF assms(4), of 0 "int (length pages)"] by auto
  qed
  with build_cpp_reaches_loop [OF assms(1,2,3,6)] show ?thesis by simp
qed

lemma ranges_concat:
  assumes "1 \<le> k" "0 \<le> T" "m \<le> n_batches T k"
  shows "concat (map (\<lambda>j. [batch_first k j + 1 .. batch_last T k j + 1]) [0..<m]) = [1 .. min T (int m * k)]"
  using assms(3)
proof (induction m)
  case 0
  then show ?case using assms(2) by simp
next
  case (Suc m)
  then have "m < n_batches T k" by simp
  then have lt: "int m * k < T" using assms(1) by (simp add: less_n_batches_iff)
  have e: "batch_last T k m + 1 = min T (int (Suc m) * k)"
    by (simp add: batch_last_def algebra_simps)
  have "[1 .. min T (int (Suc m) * k)] = [1 .. (int m * k + 1) - 1] @ [int m * k + 1 .. min T (int (Suc m) * k)]"
    using lt assms(1) by (intro upto_split1) (auto simp: algebra_simps)
  with Suc lt e show ?case by (simp add: batch_first_def)
qed

lemma out_name_padded:
  "0 \<le> s \<Longrightarrow> 0 \<le> e \<Longrightarrow>
   out_name s e = ''cpp-draft.p'' @ zero_pad 4 (digits (nat (s + 1))) @ ''-p'' @
                  zero_pad 4 (digits (nat (e + 1))) @ ''.txt''"
  by (simp add: out_name_def fmt04d_def)

lemma n_batches_ceiling: "1 \<le> k \<Longrightarrow> n_batches T k = nat \<lceil>real_of_int T / real_of_int k\<rceil>"
  by (simp add: n_batches_def ceil_div)

lemma batch_bounds:
  assumes "1 \<le> k" "j < n_batches T k"
  shows "0 \<le> batch_first k j" "batch_first k j \<le> batch_last T k j" "batch_last T k j < T"
    "batch_last T k j - batch_first k j + 1 \<le> k"
proof -
  from assms have "int j * k < T" by (simp add: less_n_batches_iff)
  then show "0 \<le> batch_first k j" "batch_first k j \<le> batch_last T k j" "batch_last T k j < T"
    "batch_last T k j - batch_first k j + 1 \<le> k"
    using assms(1) by (simp_all add: batch_first_def batch_last_def)
qed

lemma batch_full:
  assumes "1 \<le> k" "Suc j < n_batches T k"
  shows "batch_last T k j - batch_first k j + 1 = k" "batch_first k (Suc j) = batch_last T k j + 1"
proof -
  from assms have "int (Suc j) * k < T" by (simp add: less_n_batches_iff)
  then show "batch_last T k j - batch_first k j + 1 = k" "batch_first k (Suc j) = batch_last T k j + 1"
    by (simp_all add: batch_first_def batch_last_def algebra_simps)
qed

lemma build_cpp_core:
  assumes "pypdf_installed env"
    and "lookup (files st) cpp_pdf_path = Some (File c mt)"
    and "pdf_reader env c = Some pages"
    and "1 \<le> k"
    and "wf_fs (files st)"
    and "creatable (files st) cpp_out_dir"
  shows "\<exists>st'. build_cpp env k st = Some (Returned () st') \<and>
     listdir (files st') cpp_out_dir =
       map (batch_name (int (length pages)) k) [0 ..< n_batches (int (length pages)) k] \<and>
     (\<forall>j < n_batches (int (length pages)) k.
        lookup (files st') (cpp_out_dir @ [batch_name (int (length pages)) k j]) =
          Some (File (batch_text pages (batch_first k j) (batch_last (int (length pages)) k j))
                  (new_meta env)))"
proof -
  let ?T = "int (length pages)"
  let ?n = "n_batches ?T k"
  let ?st' = "foldl (batch_step (new_meta env) pages k) (cpp_begin pages k st) [0 ..< ?n]"
  have run: "build_cpp env k st = Some (Returned () ?st')"
    by (rule build_cpp_runs [OF assms])
  have empty: "lookup (files (cpp_begin pages k st)) (cpp_out_dir @ [x]) = None" for x
    using reset_result_empty [OF assms(5), of cpp_out_dir "cpp_out_dir @ [x]"]
    by (simp add: strict_prefix_def)
  then have "listdir (files (cpp_begin pages k st)) cpp_out_dir = []"
    by (simp only: listdir_empty_iff) simp
  moreover have "listdir (files ?st') cpp_out_dir =
      listdir (files (cpp_begin pages k st)) cpp_out_dir @ map (batch_name ?T k) [0 ..< ?n]"
    by (rule listdir_batches [OF assms(4)]) (use empty in simp_all)
  ultimately have ls: "listdir (files ?st') cpp_out_dir = map (batch_name ?T k) [0 ..< ?n]"
    by simp
  have "\<forall>j < ?n. lookup (files ?st') (cpp_out_dir @ [batch_name ?T k j]) =
          Some (File (batch_text pages (batch_first k j) (batch_last ?T k j)) (new_meta env))"
    using lookup_batches_written [OF assms(4), of _ "[0 ..< ?n]"] by simp
  with run ls show ?thesis by blast
qed

text \<open>
  Claim C1. When pypdf is available, the PDF exists and is read as T pages, and the batch
  size k is at least 1, build\_cpp returns and leaves in the output directory exactly
  ceil(T/k) files, all distinct. The j-th file (counting from 0) is named after the batch
  of 0-indexed pages from j*k to min(T-1, j*k+k-1): the name carries both ends, counted
  from 1 and padded with zeros to four digits. Read in order, the 1-based ranges
  concatenate to 1..T, so they are consecutive, do not overlap and cover every page; each
  has at most k pages, and every range but the last has exactly k.
\<close>

theorem build_cpp_page_batches:
  assumes "pypdf_installed env"
    and "lookup (files st) cpp_pdf_path = Some (File c mt)"
    and "pdf_reader env c = Some pages"
    and "1 \<le> k"
    and "wf_fs (files st)"
    and "creatable (files st) cpp_out_dir"
  shows "\<exists>st'. build_cpp env k st = Some (Returned () st') \<and>
     (let T = int (length pages);
          n = nat \<lceil>real_of_int T / real_of_int k\<rceil>;
          first = (\<lambda>j. int j * k);
          final = (\<lambda>j. min (T - 1) (int j * k + k - 1));
          names = listdir (files st') cpp_out_dir
      in length names = n \<and> distinct names \<and>
         names = map (\<lambda>j. out_name (first j) (final j)) [0 ..< n] \<and>
         names = map (\<lambda>j. ''cpp-draft.p'' @ zero_pad 4 (digits (nat (first j + 1))) @ ''-p'' @
                            zero_pad 4 (digits (nat (final j + 1))) @ ''.txt'') [0 ..< n] \<and>
         (\<forall>j < n. is_file (files st') (cpp_out_dir @ [names ! j])) \<and>
         concat (map (\<lambda>j. [first j + 1 .. final j + 1]) [0 ..< n]) = [1 .. T] \<and>
         (\<forall>j < n. first j \<le> final j \<and> final j - first j + 1 \<le> k) \<and>
         (\<forall>j. Suc j < n \<longrightarrow> final j - first j + 1 = k \<and> first (Suc j) = final j + 1))"
proof -
  let ?T = "int (length pages)"
  let ?n = "n_batches ?T k"
  from build_cpp_core [OF assms] obtain st' where
    run: "build_cpp env k st = Some (Returned () st')"
    and ls: "listdir (files st') cpp_out_dir = map (batch_name ?T k) [0 ..< ?n]"
    and wr: "\<forall>j < ?n. lookup (files st') (cpp_out_dir @ [batch_name ?T k j]) =
          Some (File (batch_text pages (batch_first k j) (batch_last ?T k j)) (new_meta env))"
    by blast
  have len: "length (listdir (files st') cpp_out_dir) = ?n" by (simp add: ls)
  have dist: "distinct (listdir (files st') cpp_out_dir)"
    unfolding ls using batch_name_inj [OF assms(4), of ?T]
    by (simp add: distinct_map inj_on_def inj_def)
  have pad: "map (batch_name ?T k) [0 ..< ?n] =
      map (\<lambda>j. ''cpp-draft.p'' @ zero_pad 4 (digits (nat (batch_first k j + 1))) @ ''-p'' @
                 zero_pad 4 (digits (nat (batch_last ?T k j + 1))) @ ''.txt'') [0 ..< ?n]"
  proof (rule map_cong [OF refl])
    fix j assume "j \<in> set [0 ..< ?n]"
    then have j: "j < ?n" by simp
    from batch_bounds [OF assms(4) j]
    show "batch_name ?T k j = ''cpp-draft.p'' @ zero_pad 4 (digits (nat (batch_first k j + 1))) @ ''-p'' @
                 zero_pad 4 (digits (nat (batch_last ?T k j + 1))) @ ''.txt''"
      unfolding batch_name_def by (intro out_name_padded) simp_all
  qed
  have isf: "\<forall>j < ?n. is_file (files st') (cpp_out_dir @ [listdir (files st') cpp_out_dir ! j])"
    using wr by (simp add: ls is_file_def)
  have "?n \<le> ?n" by simp
  from ranges_concat [OF assms(4) _ this]
  have "concat (map (\<lambda>j. [batch_first k j + 1 .. batch_last ?T k j + 1]) [0 ..< ?n]) = [1 .. min ?T (int ?n * k)]"
    by simp
  moreover have "\<not> int ?n * k < ?T"
    using less_n_batches_iff [OF assms(4), of ?n ?T] by simp
  ultimately have cover: "concat (map (\<lambda>j. [batch_first k j + 1 .. batch_last ?T k j + 1]) [0 ..< ?n]) = [1 .. ?T]"
    by (simp add: min_def)
  have sz: "\<forall>j < ?n. batch_first k j \<le> batch_last ?T k j \<and> batch_last ?T k j - batch_first k j + 1 \<le> k"
    using batch_bounds [OF assms(4)] by blast
  have full: "\<forall>j. Suc j < ?n \<longrightarrow> batch_last ?T k j - batch_first k j + 1 = k \<and>
      batch_first k (Suc j) = batch_last ?T k j + 1"
    using batch_full [OF assms(4)] by blast
  have n: "?n = nat \<lceil>real_of_int ?T / real_of_int k\<rceil>"
    by (rule n_batches_ceiling [OF assms(4)])
  show ?thesis
    apply (rule exI [of _ st'])
    apply (rule conjI [OF run])
    unfolding Let_def n [symmetric]
    using len dist ls pad isf cover sz full
    unfolding batch_name_def batch_first_def batch_last_def
    by (intro conjI) simp_all
qed

theorem build_cpp_page_batches_witness:
  "\<exists>st'. build_cpp (demo_env [Some ''a'', None, Some ''c'']) 2 demo_state = Some (Returned () st') \<and>
     listdir (files st') cpp_out_dir = [''cpp-draft.p0001-p0002.txt'', ''cpp-draft.p0003-p0003.txt'']"
proof -
  have h1: "pypdf_installed (demo_env [Some ''a'', None, Some ''c''])"
    by (simp add: demo_env_def)
  have h2: "lookup (files demo_state) cpp_pdf_path = Some (File ''%PDF-1.7'' (Meta 100 420))"
    by (simp add: demo_state_def lookup_def cpp_pdf_path_def)
  have h3: "pdf_reader (demo_env [Some ''a'', None, Some ''c'']) ''%PDF-1.7'' = Some [Some ''a'', None, Some ''c'']"
    by (simp add: demo_env_def)
  have h4: "(1::int) \<le> 2" by simp
  have h5: "wf_fs (files demo_state)"
    by (simp add: demo_state_def wf_fs_def is_dir_def lookup_def)
  have h6: "creatable (files demo_state) cpp_out_dir"
    by (simp add: demo_state_def creatable_def is_file_def lookup_def cpp_out_dir_def)
  have names: "map (\<lambda>j. out_name (int j * 2) (min (3 - 1) (int j * 2 + 2 - 1))) [0 ..< 2]
      = [''cpp-draft.p0001-p0002.txt'', ''cpp-draft.p0003-p0003.txt'']"
    by code_simp
  have c: "\<lceil>3 / 2 :: real\<rceil> = 2" by simp
  from build_cpp_page_batches [OF h1 h2 h3 h4 h5 h6] names show ?thesis
    by (auto simp add: Let_def c)
qed

text \<open>
  Claim C6. The file written for a batch holds, for each page of the batch in ascending
  order, two newlines (ending the line before and leaving a blank line), the line
  ===== PAGE n ===== with the 1-based page number, two newlines (a blank line), and then
  the text extracted from the page. A page for which extraction yields nothing contributes
  the empty string after its marker, and the build returns all the same.
\<close>

theorem build_cpp_page_markers:
  assumes "pypdf_installed env"
    and "lookup (files st) cpp_pdf_path = Some (File c mt)"
    and "pdf_reader env c = Some pages"
    and "1 \<le> k"
    and "wf_fs (files st)"
    and "creatable (files st) cpp_out_dir"
  shows "\<exists>st'. build_cpp env k st = Some (Returned () st') \<and>
     (\<forall>j < nat ((int (length pages) + k - 1) div k).
        lookup (files st')
          (cpp_out_dir @ [out_name (int j * k) (min (int (length pages) - 1) (int j * k + k - 1))]) =
        Some (File
          (concat (map
             (\<lambda>i. [CHR 0x0A, CHR 0x0A] @ ''===== PAGE '' @ str_int (i + 1) @ '' ====='' @
                    [CHR 0x0A, CHR 0x0A] @
                    (case pages ! nat i of None \<Rightarrow> [] | Some text \<Rightarrow> text))
             [int j * k .. min (int (length pages) - 1) (int j * k + k - 1)]))
          (new_meta env)))"
proof -
  from build_cpp_core [OF assms] obtain st' where
    run: "build_cpp env k st = Some (Returned () st')"
    and wr: "\<forall>j < n_batches (int (length pages)) k.
          lookup (files st') (cpp_out_dir @ [batch_name (int (length pages)) k j]) =
          Some (File (batch_text pages (batch_first k j) (batch_last (int (length pages)) k j)) (new_meta env))"
    by blast
  have blk: "page_block pages = (\<lambda>i. [CHR 0x0A, CHR 0x0A] @ ''===== PAGE '' @ str_int (i + 1) @ '' ====='' @
                    [CHR 0x0A, CHR 0x0A] @
                    (case pages ! nat i of None \<Rightarrow> [] | Some text \<Rightarrow> text))"
    by (rule ext) (simp add: page_block_def page_marker_def page_text_def)
  from wr show ?thesis
    unfolding n_batches_def batch_name_def batch_text_def batch_first_def batch_last_def blk
    using run by blast
qed

theorem build_cpp_page_markers_witness:
  "\<exists>st'. build_cpp (demo_env [Some ''a'', None, Some ''c'']) 2 demo_state = Some (Returned () st') \<and>
     lookup (files st') (cpp_out_dir @ [''cpp-draft.p0001-p0002.txt'']) =
       Some (File ([CHR 0x0A, CHR 0x0A] @ ''===== PAGE 1 ====='' @ [CHR 0x0A, CHR 0x0A] @ ''a'' @
                   [CHR 0x0A, CHR 0x0A] @ ''===== PAGE 2 ====='' @ [CHR 0x0A, CHR 0x0A]) (Meta 200 420))"
proof -
  have h1: "pypdf_installed (demo_env [Some ''a'', None, Some ''c''])"
    by (simp add: demo_env_def)
  have h2: "lookup (files demo_state) cpp_pdf_path = Some (File ''%PDF-1.7'' (Meta 100 420))"
    by (simp add: demo_state_def lookup_def cpp_pdf_path_def)
  have h3: "pdf_reader (demo_env [Some ''a'', None, Some ''c'']) ''%PDF-1.7'' = Some [Some ''a'', None, Some ''c'']"
    by (simp add: demo_env_def)
  have h4: "(1::int) \<le> 2" by simp
  have h5: "wf_fs (files demo_state)"
    by (simp add: demo_state_def wf_fs_def is_dir_def lookup_def)
  have h6: "creatable (files demo_state) cpp_out_dir"
    by (simp add: demo_state_def creatable_def is_file_def lookup_def cpp_out_dir_def)
  have nm: "out_name 0 1 = ''cpp-draft.p0001-p0002.txt''" by code_simp
  have s1: "str_int 1 = ''1''" by code_simp
  have s2: "str_int 2 = ''2''" by code_simp
  have up: "[0 .. 1::int] = [0, 1]" by code_simp
  from build_cpp_page_markers [OF h1 h2 h3 h4 h5 h6] obtain st' where
    run: "build_cpp (demo_env [Some ''a'', None, Some ''c'']) 2 demo_state = Some (Returned () st')"
    and all: "\<forall>j < nat ((int (length [Some ''a'', None, Some ''c'']) + 2 - 1) div 2).
        lookup (files st')
          (cpp_out_dir @ [out_name (int j * 2) (min (int (length [Some ''a'', None, Some ''c'']) - 1) (int j * 2 + 2 - 1))]) =
        Some (File
          (concat (map
             (\<lambda>i. [CHR 0x0A, CHR 0x0A] @ ''===== PAGE '' @ str_int (i + 1) @ '' ====='' @
                    [CHR 0x0A, CHR 0x0A] @
                    (case [Some ''a'', None, Some ''c''] ! nat i of None \<Rightarrow> [] | Some text \<Rightarrow> text))
             [int j * 2 .. min (int (length [Some ''a'', None, Some ''c'']) - 1) (int j * 2 + 2 - 1)]))
          (new_meta (demo_env [Some ''a'', None, Some ''c''])))"
    by blast
  from all [rule_format, of 0] have
    "lookup (files st') (cpp_out_dir @ [''cpp-draft.p0001-p0002.txt'']) =
       Some (File ([CHR 0x0A, CHR 0x0A] @ ''===== PAGE 1 ====='' @ [CHR 0x0A, CHR 0x0A] @ ''a'' @
                   [CHR 0x0A, CHR 0x0A] @ ''===== PAGE 2 ====='' @ [CHR 0x0A, CHR 0x0A]) (Meta 200 420))"
    by (simp add: nm s1 s2 up demo_env_def)
  with run show ?thesis by blast
qed

text \<open>
  Claim C8. For a PDF with no pages, build\_cpp returns without raising, for every batch
  size, and the output directory is the freshly reset, empty directory: no file is
  created in it.
\<close>

theorem build_cpp_no_pages:
  assumes "pypdf_installed env"
    and "lookup (files st) cpp_pdf_path = Some (File c mt)"
    and "pdf_reader env c = Some []"
    and "wf_fs (files st)"
    and "creatable (files st) cpp_out_dir"
  shows "\<exists>st'. build_cpp env k st = Some (Returned () st') \<and>
           is_dir (files st') cpp_out_dir \<and>
           listdir (files st') cpp_out_dir = [] \<and>
           (\<forall>r. strict_prefix cpp_out_dir r \<longrightarrow> lookup (files st') r = None)"
proof -
  have "build_cpp env k st = cpp_loop (new_meta env) [] k 0 (cpp_begin [] k st)"
    by (rule build_cpp_reaches_loop [OF assms(1,2,3,5)])
  also have "\<dots> = Some (Returned () (cpp_begin [] k st))"
    by (subst cpp_loop.simps) simp
  finally have run: "build_cpp env k st = Some (Returned () (cpp_begin [] k st))" .
  have d: "is_dir (files (cpp_begin [] k st)) cpp_out_dir"
    using reset_result_is_dir [OF assms(5)] by simp
  have e: "\<forall>r. strict_prefix cpp_out_dir r \<longrightarrow> lookup (files (cpp_begin [] k st)) r = None"
    using reset_result_empty [OF assms(4)] by simp
  then have "\<forall>n. lookup (files (cpp_begin [] k st)) (cpp_out_dir @ [n]) = None"
    by (simp add: strict_prefix_def)
  then have l: "listdir (files (cpp_begin [] k st)) cpp_out_dir = []"
    by (simp only: listdir_empty_iff simp_thms)
  from run d l e show ?thesis by blast
qed

theorem build_cpp_no_pages_witness:
  "\<exists>st'. build_cpp (demo_env []) 200 demo_state = Some (Returned () st') \<and>
           is_dir (files st') cpp_out_dir \<and>
           listdir (files st') cpp_out_dir = [] \<and>
           (\<forall>r. strict_prefix cpp_out_dir r \<longrightarrow> lookup (files st') r = None)"
proof -
  have h1: "pypdf_installed (demo_env [])"
    by (simp add: demo_env_def)
  have h2: "lookup (files demo_state) cpp_pdf_path = Some (File ''%PDF-1.7'' (Meta 100 420))"
    by (simp add: demo_state_def lookup_def cpp_pdf_path_def)
  have h3: "pdf_reader (demo_env []) ''%PDF-1.7'' = Some []"
    by (simp add: demo_env_def)
  have h5: "wf_fs (files demo_state)"
    by (simp add: demo_state_def wf_fs_def is_dir_def lookup_def)
  have h6: "creatable (files demo_state) cpp_out_dir"
    by (simp add: demo_state_def creatable_def is_file_def lookup_def cpp_out_dir_def)
  from build_cpp_no_pages [OF h1 h2 h3 h5 h6] show ?thesis .
qed

lemma state_of_simps [simp]:
  "state_of (Returned a s) = s" "state_of (Raised e s) = s"
  by (simp_all add: state_of_def)

lemma only_below_refl [simp]: "only_below d f f"
  by (simp add: only_below_def)

lemma only_below_trans: "only_below d f g \<Longrightarrow> only_below d g h \<Longrightarrow> only_below d f h"
  by (simp add: only_below_def)

lemma only_below_lookup:
  assumes "only_below d f f'" "\<not> strict_prefix d q"
  shows "lookup f' q = lookup f q"
proof -
  have "lookup (filter (\<lambda>e. \<not> strict_prefix d (fst e)) f') q = lookup (filter (\<lambda>e. \<not> strict_prefix d (fst e)) f) q"
    using assms(1) by (simp add: only_below_def)
  then show ?thesis
    using assms(2) lookup_filter [where P = "\<lambda>q. \<not> strict_prefix d q"] by simp
qed

lemma only_below_anchored: "only_below d f f' \<Longrightarrow> anchored d f \<Longrightarrow> anchored d f'"
  by (auto simp: anchored_def list_all_iff is_dir_def in_set_prefixes only_below_lookup
      dest: prefix_order.antisym_conv2)

lemma only_below_update:
  "strict_prefix d p \<Longrightarrow> only_below d f (AList.update p v f)"
  unfolding only_below_def by (induction f) auto

lemma only_below_append:
  "\<forall>q\<in>set new. strict_prefix d q \<Longrightarrow> only_below d f (f @ map (\<lambda>q. (q, Dir)) new)"
  unfolding only_below_def by (induction new) auto

lemma mkdirs_adds:
  "\<exists>new. state_of (mkdirs t qs f) = f @ map (\<lambda>q. (q, Dir)) new \<and> set new \<subseteq> set qs \<and>
          (\<forall>q\<in>set new. lookup f q = None)"
proof (induction qs arbitrary: f)
  case Nil
  show ?case by (rule exI [of _ "[]"]) simp
next
  case (Cons q qs)
  show ?case
  proof (cases "lookup f q")
    case None
    from Cons.IH [of "f @ [(q, Dir)]"] obtain new where
      n: "state_of (mkdirs t qs (f @ [(q, Dir)])) = (f @ [(q, Dir)]) @ map (\<lambda>q. (q, Dir)) new"
      "set new \<subseteq> set qs" "\<forall>r\<in>set new. lookup (f @ [(q, Dir)]) r = None"
      by blast
    from n(3) have "\<forall>r\<in>set new. lookup f r = None"
      by (auto simp: lookup_snoc split: option.splits)
    with n(1,2) None show ?thesis
      by (intro exI [of _ "q # new"]) (auto simp: mkdir1_def)
  next
    case (Some v)
    show ?thesis
    proof (cases v)
      case Dir
      from Cons.IH [of f] obtain new where
        "state_of (mkdirs t qs f) = f @ map (\<lambda>q. (q, Dir)) new" "set new \<subseteq> set qs"
        "\<forall>r\<in>set new. lookup f r = None" by blast
      with Some Dir show ?thesis
        by (intro exI [of _ new]) (auto simp: mkdir1_def)
    next
      case (File c m)
      with Some show ?thesis
        by (intro exI [of _ "[]"]) (simp add: mkdir1_def)
    qed
  qed
qed

lemma comparable_prefixes:
  "prefix q x \<Longrightarrow> prefix d x \<Longrightarrow> prefix q d \<or> strict_prefix d q"
  by (metis prefix_same_cases strict_prefix_def)

lemma ensure_dir_below:
  assumes "anchored d f" "prefix d p"
  shows "only_below d f (state_of (ensure_dir p f))"
proof -
  from mkdirs_adds [of p "prefixes p" f] obtain new where
    n: "state_of (mkdirs p (prefixes p) f) = f @ map (\<lambda>q. (q, Dir)) new"
    "set new \<subseteq> set (prefixes p)" "\<forall>q\<in>set new. lookup f q = None"
    by blast
  have "\<forall>q\<in>set new. strict_prefix d q"
  proof
    fix q assume q: "q \<in> set new"
    with n(2) have "prefix q p" by (auto simp: in_set_prefixes)
    from comparable_prefixes [OF this assms(2)] show "strict_prefix d q"
    proof
      assume "prefix q d"
      with assms(1) have "is_dir f q" by (simp add: anchored_def list_all_iff in_set_prefixes)
      with n(3) q show ?thesis by (simp add: is_dir_def)
    qed
  qed
  with n(1) show ?thesis
    by (simp add: ensure_dir_def mkdir_parents_def only_below_append)
qed

lemma put_file_below:
  "strict_prefix d p \<Longrightarrow> only_below d f (state_of (put_file p v f))"
  by (auto simp: put_file_def only_below_update split: option.splits node.splits)

lemma copy2_below:
  assumes "strict_prefix d dst"
  shows "only_below d f (state_of (copy2 src dst f))"
proof -
  have "strict_prefix d (dst @ [name_of src])"
    using assms by (auto simp: strict_prefix_def prefix_def)
  with assms show ?thesis
    by (auto simp: copy2_def Let_def put_file_below split: option.splits node.splits)
qed

lemma copy_files_below:
  "prefix d out_dir \<Longrightarrow> only_below d f (state_of (copy_files root_path out_dir names f))"
proof (induction names arbitrary: f)
  case Nil
  show ?case by simp
next
  case (Cons n names)
  have sp: "strict_prefix d (out_dir @ [n])"
    using Cons.prems by (auto simp: strict_prefix_def prefix_def)
  show ?case
  proof (cases "copy2 (root_path @ [n]) (out_dir @ [n]) f")
    case (Raised e s)
    with copy2_below [OF sp, of f "root_path @ [n]"] show ?thesis by simp
  next
    case (Returned u s)
    with copy2_below [OF sp, of f "root_path @ [n]"] have "only_below d f s" by simp
    from only_below_trans [OF this Cons.IH [OF Cons.prems, of s]] Returned
    show ?thesis by simp
  qed
qed

lemma copy_tree_loop_below:
  "anchored d f \<Longrightarrow> only_below d f (state_of (copy_tree_loop src d walk f))"
proof (induction walk arbitrary: f)
  case Nil
  show ?case by simp
next
  case (Cons w walk)
  obtain root_path dirs names where w: "w = (root_path, dirs, names)" by (cases w) auto
  let ?out = "d @ drop (length src) root_path"
  have e: "only_below d f (state_of (ensure_dir ?out f))"
    by (rule ensure_dir_below [OF Cons.prems]) simp
  show ?case
  proof (cases "ensure_dir ?out f")
    case (Raised e1 s)
    with e w show ?thesis by (simp add: Let_def)
  next
    case (Returned u s)
    with e have fs: "only_below d f s" by simp
    have c: "only_below d s (state_of (copy_files root_path ?out names s))"
      by (rule copy_files_below) simp
    show ?thesis
    proof (cases "copy_files root_path ?out names s")
      case (Raised e2 s')
      with c fs Returned w show ?thesis
        by (auto simp: Let_def intro: only_below_trans)
    next
      case Returned2: (Returned u' s')
      with c fs have fs': "only_below d f s'" by (auto intro: only_below_trans)
      then have "anchored d s'" using Cons.prems by (rule only_below_anchored)
      from Cons.IH [OF this] have "only_below d s' (state_of (copy_tree_loop src d walk s'))" .
      with fs' Returned Returned2 w show ?thesis
        by (auto simp: Let_def intro: only_below_trans)
    qed
  qed
qed

lemma copy_tree_below:
  "anchored d f \<Longrightarrow> only_below d f (state_of (copy_tree src d f))"
  by (simp add: copy_tree_def copy_tree_loop_below)

lemma copy_matching_loop_below:
  "anchored d f \<Longrightarrow> strict_prefix d dst_root \<Longrightarrow>
   only_below d f (state_of (copy_matching_loop src_root dst_root allowed ps n f))"
proof (induction ps arbitrary: f n)
  case Nil
  show ?case by simp
next
  case (Cons p ps)
  let ?out = "dst_root @ drop (length src_root) p"
  show ?case
  proof (cases "is_file f p \<and> lower (path_suffix p) \<in> set allowed")
    case False
    with Cons show ?thesis by auto
  next
    case True
    have pre: "prefix d (butlast ?out)"
      using Cons.prems(2)
      by (cases "drop (length src_root) p" rule: rev_cases)
         (auto simp: strict_prefix_def prefix_def butlast_append)
    have sp: "strict_prefix d ?out"
      using Cons.prems(2) by (auto simp: strict_prefix_def prefix_def)
    have e: "only_below d f (state_of (ensure_dir (butlast ?out) f))"
      by (rule ensure_dir_below [OF Cons.prems(1) pre])
    show ?thesis
    proof (cases "ensure_dir (butlast ?out) f")
      case (Raised e1 s)
      with e True show ?thesis by (simp add: Let_def)
    next
      case (Returned u s)
      with e have fs: "only_below d f s" by simp
      have c: "only_below d s (state_of (copy2 p ?out s))" by (rule copy2_below [OF sp])
      show ?thesis
      proof (cases "copy2 p ?out s")
        case (Raised e2 s')
        with c fs Returned True show ?thesis
          by (auto simp: Let_def intro: only_below_trans)
      next
        case Returned2: (Returned u' s')
        with c fs have fs': "only_below d f s'" by (auto intro: only_below_trans)
        then have "anchored d s'" using Cons.prems(1) by (rule only_below_anchored)
        from Cons.IH [OF this Cons.prems(2)]
        have "only_below d s' (state_of (copy_matching_loop src_root dst_root allowed ps (n + 1) s'))" .
        with fs' Returned Returned2 True show ?thesis
          by (auto simp: Let_def intro: only_below_trans)
      qed
    qed
  qed
qed

lemma copy_matching_files_below:
  "anchored d f \<Longrightarrow> strict_prefix d dst_root \<Longrightarrow>
   only_below d f (state_of (copy_matching_files src_root dst_root allowed f))"
  by (simp add: copy_matching_files_def copy_matching_loop_below)

lemma distinct_all_prefixes: "distinct (prefixes xs)"
  by (induction xs) (auto simp: distinct_map)

lemma mkdirs_Returned:
  assumes "mkdirs t qs f = Returned u f'" "distinct qs"
  shows "\<forall>q\<in>set qs. \<not> is_file f q"
  using assms
proof (induction qs arbitrary: f)
  case Nil
  show ?case by simp
next
  case (Cons q qs)
  from Cons.prems(1) obtain u1 f1 where
    m1: "mkdir1 t q f = Returned u1 f1" and rest: "mkdirs t qs f1 = Returned u f'"
    by (auto split: result.splits)
  from m1 have nf: "\<not> is_file f q"
    by (auto simp: mkdir1_def is_file_def split: option.splits node.splits)
  from m1 have f1: "f1 = f \<or> f1 = f @ [(q, Dir)]"
    by (auto simp: mkdir1_def split: option.splits node.splits)
  from Cons.IH [OF rest] Cons.prems(2) have ih: "\<forall>r\<in>set qs. \<not> is_file f1 r" by simp
  have "\<forall>r\<in>set qs. \<not> is_file f r"
  proof
    fix r assume r: "r \<in> set qs"
    with Cons.prems(2) have "r \<noteq> q" by auto
    then have "is_file f r \<Longrightarrow> is_file f1 r"
      using f1 by (auto simp: is_file_def lookup_snoc split: option.splits)
    with ih r show "\<not> is_file f r" by blast
  qed
  with nf show ?case by simp
qed

lemma reset_dir_Returned:
  assumes "reset_dir d f = Returned u f1"
  shows "creatable f d" and "f1 = reset_result d f"
proof -
  let ?c = "cleared d f"
  have rm: "path_exists f d \<Longrightarrow> lookup f d = Some Dir \<and> rmtree d f = Returned () ?c"
    using assms
    by (cases "lookup f d")
       (auto simp: reset_dir_def rmtree_def cleared_def path_exists_def split: node.splits)
  then have mk: "mkdir_parents d ?c = Returned u f1"
    using assms by (cases "path_exists f d") (auto simp: reset_dir_def cleared_def)
  then have nf: "\<forall>q\<in>set (prefixes d). \<not> is_file ?c q"
    unfolding mkdir_parents_def by (rule mkdirs_Returned) (rule distinct_all_prefixes)
  have "\<not> is_file f q" if "q \<in> set (prefixes d)" for q
  proof (cases "path_exists f d \<and> prefix d q")
    case True
    with that have "q = d" by (auto simp: in_set_prefixes dest: prefix_order.antisym)
    with True rm show ?thesis by (simp add: is_file_def)
  next
    case False
    then have "lookup ?c q = lookup f q" by (auto simp: lookup_cleared)
    moreover from nf that have "\<not> is_file ?c q" by blast
    ultimately show ?thesis by (simp add: is_file_def)
  qed
  then show c: "creatable f d" by (simp add: creatable_def list_all_iff)
  from reset_dir_ok [OF c] assms show "f1 = reset_result d f"
    by (simp add: reset_result_def)
qed

lemma reset_result_anchored:
  assumes "creatable f d"
  shows "anchored d (reset_result d f)"
proof -
  have "is_dir (reset_result d f) q" if "q \<in> set (prefixes d)" for q
  proof -
    from assms that have "\<not> is_file f q" by (simp add: creatable_def list_all_iff)
    then have "lookup f q = None \<or> lookup f q = Some Dir" by (rule not_is_file_cases)
    with that show ?thesis
      by (auto simp: is_dir_def lookup_reset_result lookup_cleared)
  qed
  then show ?thesis by (simp add: anchored_def list_all_iff)
qed

lemma reset_dir_frame:
  assumes "\<not> prefix d q" "\<not> prefix q d"
  shows "lookup (state_of (reset_dir d f)) q = lookup f q"
proof -
  have mk: "lookup (state_of (mkdir_parents d g)) q = lookup g q" for g
  proof -
    from mkdirs_adds [of d "prefixes d" g] obtain new where
      n: "state_of (mkdirs d (prefixes d) g) = g @ map (\<lambda>q. (q, Dir)) new"
      "set new \<subseteq> set (prefixes d)" by blast
    from n(2) assms(2) have "q \<notin> set new" by (auto simp: in_set_prefixes)
    then have "map_of (map (\<lambda>q. (q, Dir)) new) q = None"
      by (simp add: map_of_eq_None_iff image_iff)
    with n(1) show ?thesis
      by (simp add: mkdir_parents_def lookup_def map_add_def split: option.splits)
  qed
  show ?thesis
  proof (cases "path_exists f d")
    case False
    with mk [of f] show ?thesis by (simp add: reset_dir_def)
  next
    case True
    show ?thesis
    proof (cases "rmtree d f")
      case (Raised e s)
      then have "s = f" by (auto simp: rmtree_def split: option.splits node.splits)
      with True Raised show ?thesis by (simp add: reset_dir_def)
    next
      case (Returned u s)
      then have "s = filter (\<lambda>e. \<not> prefix d (fst e)) f"
        by (auto simp: rmtree_def split: option.splits node.splits)
      then have "lookup s q = lookup f q" using assms(1) by (simp add: lookup_rm)
      with True Returned mk [of s] show ?thesis by (simp add: reset_dir_def)
    qed
  qed
qed






lemma mentions_fetch_step:
  "mentions fetch_step ''Python raw docs not found. Run: ./rag-ml/kb/pull-docs.sh''"
  "mentions fetch_step ''JS raw ecma262.txt not found. Run: ./rag-ml/kb/pull-docs.sh''"
  "mentions fetch_step ''Swift raw swift-book not found. Run: ./rag-ml/kb/pull-docs.sh''"
  "mentions fetch_step ''C++ draft PDF not found. Run: ./rag-ml/kb/pull-docs.sh''"
  by (simp_all add: mentions_def fetch_step_def)

lemma missing_pypdf_no_fetch_step: "\<not> mentions fetch_step missing_pypdf_message"
  by (simp add: mentions_def fetch_step_def missing_pypdf_message_def)

text \<open>
  Claim C4, as stated, fails for build\_cpp: the import of pypdf is tried before the PDF
  is looked for, so without pypdf a missing PDF is reported as a missing dependency, with
  a message that does not name the fetch step.
\<close>

theorem build_cpp_missing_pdf_counterexample:
  "\<not> path_exists (files bare_state) cpp_pdf_path \<and>
   build_cpp ((demo_env [])\<lparr>pypdf_installed := False\<rparr>) 200 bare_state =
     Some (Raised (SystemExit missing_pypdf_message) bare_state) \<and>
   \<not> mentions fetch_step missing_pypdf_message"
  by (simp add: missing_pypdf_no_fetch_step build_cpp_def demo_env_def bare_state_def
      path_exists_def lookup_def cpp_pdf_path_def)

text \<open>
  Claim C4, amended. If the raw input of build\_python, build\_javascript or build\_swift
  does not exist, the step raises SystemExit with a message that names the fetch step
  ./rag-ml/kb/pull-docs.sh, and leaves the store and the log exactly as they were. The same
  holds for build\_cpp when pypdf can be imported. When pypdf cannot be imported, build\_cpp
  raises the missing-dependency SystemExit whether the PDF exists or not, again leaving
  the store and the log as they were.
\<close>

theorem missing_prerequisite_fails:
  "(\<not> path_exists (files st) python_raw \<longrightarrow>
      build_python st =
        Raised (SystemExit ''Python raw docs not found. Run: ./rag-ml/kb/pull-docs.sh'') st) \<and>
   (\<not> path_exists (files st) javascript_raw_txt \<longrightarrow>
      build_javascript st =
        Raised (SystemExit ''JS raw ecma262.txt not found. Run: ./rag-ml/kb/pull-docs.sh'') st) \<and>
   (\<not> path_exists (files st) swift_raw \<longrightarrow>
      build_swift st =
        Raised (SystemExit ''Swift raw swift-book not found. Run: ./rag-ml/kb/pull-docs.sh'') st) \<and>
   (pypdf_installed env \<and> \<not> path_exists (files st) cpp_pdf_path \<longrightarrow>
      build_cpp env k st =
        Some (Raised (SystemExit ''C++ draft PDF not found. Run: ./rag-ml/kb/pull-docs.sh'') st)) \<and>
   (\<not> pypdf_installed env \<longrightarrow>
      build_cpp env k st = Some (Raised (SystemExit missing_pypdf_message) st)) \<and>
   mentions fetch_step ''Python raw docs not found. Run: ./rag-ml/kb/pull-docs.sh'' \<and>
   mentions fetch_step ''JS raw ecma262.txt not found. Run: ./rag-ml/kb/pull-docs.sh'' \<and>
   mentions fetch_step ''Swift raw swift-book not found. Run: ./rag-ml/kb/pull-docs.sh'' \<and>
   mentions fetch_step ''C++ draft PDF not found. Run: ./rag-ml/kb/pull-docs.sh''"
  by (simp add: build_python_def build_javascript_def build_swift_def build_cpp_def
      mentions_fetch_step)

theorem missing_prerequisite_fails_witness:
  "build_python bare_state =
     Raised (SystemExit ''Python raw docs not found. Run: ./rag-ml/kb/pull-docs.sh'') bare_state \<and>
   build_javascript bare_state =
     Raised (SystemExit ''JS raw ecma262.txt not found. Run: ./rag-ml/kb/pull-docs.sh'') bare_state \<and>
   build_swift bare_state =
     Raised (SystemExit ''Swift raw swift-book not found. Run: ./rag-ml/kb/pull-docs.sh'') bare_state \<and>
   build_cpp (demo_env []) 200 bare_state =
     Some (Raised (SystemExit ''C++ draft PDF not found. Run: ./rag-ml/kb/pull-docs.sh'') bare_state) \<and>
   build_cpp ((demo_env [])\<lparr>pypdf_installed := False\<rparr>) 200 demo_state =
     Some (Raised (SystemExit missing_pypdf_message) demo_state)"
proof -
  have h1: "\<not> path_exists (files bare_state) python_raw"
    by (simp add: bare_state_def path_exists_def lookup_def python_raw_def)
  have h2: "\<not> path_exists (files bare_state) javascript_raw_txt"
    by (simp add: bare_state_def path_exists_def lookup_def javascript_raw_txt_def)
  have h3: "\<not> path_exists (files bare_state) swift_raw"
    by (simp add: bare_state_def path_exists_def lookup_def swift_raw_def)
  have h4: "pypdf_installed (demo_env []) \<and> \<not> path_exists (files bare_state) cpp_pdf_path"
    by (simp add: bare_state_def path_exists_def lookup_def cpp_pdf_path_def demo_env_def)
  have h5: "\<not> pypdf_installed ((demo_env [])\<lparr>pypdf_installed := False\<rparr>)"
    by simp
  from missing_prerequisite_fails [of bare_state "demo_env []" 200] h1 h2 h3 h4
       missing_prerequisite_fails [of demo_state "(demo_env [])\<lparr>pypdf_installed := False\<rparr>" 200] h5
  show ?thesis by blast
qed

lemma reset_then_frame:
  assumes g: "\<And>f1. anchored d f1 \<Longrightarrow> only_below d f1 (g f1)"
    and q: "\<not> prefix d q" "\<not> prefix q d"
  shows "lookup (case reset_dir d f of Raised e f' \<Rightarrow> f' | Returned u f1 \<Rightarrow> g f1) q = lookup f q"
proof (cases "reset_dir d f")
  case (Raised e f')
  with reset_dir_frame [OF q, of f] show ?thesis by simp
next
  case (Returned u f1)
  from reset_dir_Returned [OF Returned] have "anchored d f1"
    by (simp add: reset_result_anchored)
  from g [OF this] have "lookup (g f1) q = lookup f1 q"
    by (rule only_below_lookup) (use q in \<open>simp add: strict_prefix_def\<close>)
  with reset_dir_frame [OF q, of f] Returned show ?thesis by simp
qed

lemma files_build_python:
  "files (state_of (build_python st)) =
     (if \<not> path_exists (files st) python_raw then files st
      else case reset_dir python_out (files st) of
             Raised e f' \<Rightarrow> f'
           | Returned u f1 \<Rightarrow> state_of (copy_tree python_raw python_out f1))"
  by (simp add: build_python_def Let_def split: result.splits)

lemma files_build_javascript:
  "files (state_of (build_javascript st)) =
     (if \<not> path_exists (files st) javascript_raw_txt then files st
      else case reset_dir javascript_out_dir (files st) of
             Raised e f' \<Rightarrow> f'
           | Returned u f1 \<Rightarrow>
               state_of (copy2 javascript_raw_txt (javascript_out_dir @ [''ecma262.txt'']) f1))"
  by (simp add: build_javascript_def Let_def st_size_def split: result.splits option.splits node.splits)

lemma files_build_swift:
  "files (state_of (build_swift st)) =
     (if \<not> path_exists (files st) swift_raw then files st
      else case reset_dir swift_out (files st) of
             Raised e f' \<Rightarrow> f'
           | Returned u f1 \<Rightarrow> swift_populate f1)"
  by (simp add: build_swift_def Let_def swift_populate_def split: result.splits)

lemma swift_populate_below:
  assumes "anchored swift_out f1"
  shows "only_below swift_out f1 (swift_populate f1)"
proof -
  let ?r = "copy_matching_files (swift_raw @ [''TSPL.docc'']) (swift_out @ [''TSPL.docc'']) [''.md''] f1"
  have a: "only_below swift_out f1 (state_of ?r)"
    by (rule copy_matching_files_below [OF assms]) (simp add: strict_prefix_def)
  show ?thesis
  proof (cases ?r)
    case (Raised e f')
    with a show ?thesis by (simp add: swift_populate_def)
  next
    case (Returned n f')
    with a have 1: "only_below swift_out f1 f'" by simp
    have "only_below swift_out f' (state_of (copy2 (swift_raw @ [''LICENSE.txt'']) (swift_out @ [''LICENSE.txt'']) f'))"
      by (rule copy2_below) (simp add: strict_prefix_def)
    with 1 Returned show ?thesis
      by (auto simp: swift_populate_def intro: only_below_trans)
  qed
qed

lemma build_python_frame:
  assumes "\<not> prefix python_out q" "\<not> prefix q python_out"
  shows "lookup (files (state_of (build_python st))) q = lookup (files st) q"
  using reset_then_frame [where g = "\<lambda>f1. state_of (copy_tree python_raw python_out f1)"
      and f = "files st", OF copy_tree_below assms]
  by (simp add: files_build_python)

lemma build_javascript_frame:
  assumes "\<not> prefix javascript_out_dir q" "\<not> prefix q javascript_out_dir"
  shows "lookup (files (state_of (build_javascript st))) q = lookup (files st) q"
proof -
  have "only_below javascript_out_dir f1
          (state_of (copy2 javascript_raw_txt (javascript_out_dir @ [''ecma262.txt'']) f1))" for f1
    by (rule copy2_below) (simp add: strict_prefix_def)
  from reset_then_frame [where g = "\<lambda>f1. state_of (copy2 javascript_raw_txt (javascript_out_dir @ [''ecma262.txt'']) f1)"
      and f = "files st", OF this assms]
  show ?thesis by (simp add: files_build_javascript)
qed

lemma build_swift_frame:
  assumes "\<not> prefix swift_out q" "\<not> prefix q swift_out"
  shows "lookup (files (state_of (build_swift st))) q = lookup (files st) q"
  using reset_then_frame [where g = swift_populate and f = "files st", OF swift_populate_below assms]
  by (simp add: files_build_swift)

lemma out_dirs_apart:
  "prefix javascript_out_dir q \<Longrightarrow> \<not> prefix python_out q \<and> \<not> prefix q python_out"
  "prefix swift_out q \<Longrightarrow> \<not> prefix python_out q \<and> \<not> prefix q python_out"
  "prefix cpp_out_dir q \<Longrightarrow> \<not> prefix python_out q \<and> \<not> prefix q python_out"
  "prefix swift_out q \<Longrightarrow> \<not> prefix javascript_out_dir q \<and> \<not> prefix q javascript_out_dir"
  "prefix cpp_out_dir q \<Longrightarrow> \<not> prefix javascript_out_dir q \<and> \<not> prefix q javascript_out_dir"
  "prefix cpp_out_dir q \<Longrightarrow> \<not> prefix swift_out q \<and> \<not> prefix q swift_out"
  by (auto simp: prefix_def python_out_def javascript_out_dir_def swift_out_def cpp_out_dir_def
      append_eq_append_conv2 Cons_eq_append_conv append_eq_Cons_conv)

lemma returned_unit: "returned r \<Longrightarrow> r = Returned () (state_of r)"
  by (cases r) (simp_all add: returned_def)

lemma raised_state_of: "r = Raised e s \<Longrightarrow> s = state_of r"
  by simp

lemma files_warn_root [simp]: "files (warn_root env st) = files st"
  by (simp add: warn_root_def)

lemma untouched_after_python:
  assumes "\<forall>d\<in>set ds. d = javascript_out_dir \<or> d = swift_out \<or> d = cpp_out_dir"
  shows "untouched ds st (state_of (build_python st))"
  unfolding untouched_def
proof (intro ballI allI impI)
  fix d q assume d: "d \<in> set ds" and pq: "prefix d q"
  from assms d have "d = javascript_out_dir \<or> d = swift_out \<or> d = cpp_out_dir"
    by (rule bspec)
  then have "\<not> prefix python_out q \<and> \<not> prefix q python_out"
  proof (elim disjE)
    assume "d = javascript_out_dir" with pq show ?thesis by (intro out_dirs_apart(1)) simp
  next
    assume "d = swift_out" with pq show ?thesis by (intro out_dirs_apart(2)) simp
  next
    assume "d = cpp_out_dir" with pq show ?thesis by (intro out_dirs_apart(3)) simp
  qed
  then show "lookup (files (state_of (build_python st))) q = lookup (files st) q"
    by (simp add: build_python_frame)
qed

lemma untouched_after_javascript:
  assumes "\<forall>d\<in>set ds. d = swift_out \<or> d = cpp_out_dir"
  shows "untouched ds st (state_of (build_javascript st))"
  unfolding untouched_def
proof (intro ballI allI impI)
  fix d q assume d: "d \<in> set ds" and pq: "prefix d q"
  from assms d have "d = swift_out \<or> d = cpp_out_dir"
    by (rule bspec)
  then have "\<not> prefix javascript_out_dir q \<and> \<not> prefix q javascript_out_dir"
  proof (elim disjE)
    assume "d = swift_out" with pq show ?thesis by (intro out_dirs_apart(4)) simp
  next
    assume "d = cpp_out_dir" with pq show ?thesis by (intro out_dirs_apart(5)) simp
  qed
  then show "lookup (files (state_of (build_javascript st))) q = lookup (files st) q"
    by (simp add: build_javascript_frame)
qed

lemma untouched_after_swift:
  "untouched [cpp_out_dir] st (state_of (build_swift st))"
  unfolding untouched_def
proof (intro ballI allI impI)
  fix d q assume d: "d \<in> set [cpp_out_dir]" and pq: "prefix d q"
  from d have "d = cpp_out_dir" by simp
  with pq have "prefix cpp_out_dir q" by simp
  then have "\<not> prefix swift_out q \<and> \<not> prefix q swift_out" by (rule out_dirs_apart(6))
  then show "lookup (files (state_of (build_swift st))) q = lookup (files st) q"
    by (simp add: build_swift_frame)
qed

lemma untouched_trans: "untouched ds a b \<Longrightarrow> untouched ds b c \<Longrightarrow> untouched ds a c"
  by (simp add: untouched_def)

lemma untouched_warn_root: "untouched ds (warn_root env st) s = untouched ds st s"
  by (simp add: untouched_def)

lemma main_Returned_builds:
  assumes "main env k st0 = Some (Returned u s)"
  shows "\<exists>s1 s2 s3 s4. build_python (warn_root env st0) = Returned () s1 \<and>
     build_javascript s1 = Returned () s2 \<and> build_swift s2 = Returned () s3 \<and>
     build_cpp env k s3 = Some (Returned () s4)"
  using assms by (auto simp: main_def Let_def split: result.splits option.splits)

text \<open>
  Claim C7. main runs build\_python, build\_javascript, build\_swift and build\_cpp in this
  order. When one of them raises, main ends with that exception in exactly the state the
  failing build left: the builds after it are not run, and the output directories of the
  later languages hold what they held when main started. In particular a missing raw
  input of the language at turn ends the run with its SystemExit. When all four return,
  main logs done and returns, which is exit status zero; every raised outcome is a
  non-zero exit status.
\<close>

theorem main_halts_at_first_failure:
  "(\<forall>e s. build_python (warn_root env st0) = Raised e s \<longrightarrow>
      main env k st0 = Some (Raised e s) \<and>
      untouched [javascript_out_dir, swift_out, cpp_out_dir] st0 s) \<and>
   (\<forall>s1 e s. build_python (warn_root env st0) = Returned () s1 \<and>
      build_javascript s1 = Raised e s \<longrightarrow>
      main env k st0 = Some (Raised e s) \<and> untouched [swift_out, cpp_out_dir] st0 s) \<and>
   (\<forall>s1 s2 e s. build_python (warn_root env st0) = Returned () s1 \<and>
      build_javascript s1 = Returned () s2 \<and> build_swift s2 = Raised e s \<longrightarrow>
      main env k st0 = Some (Raised e s) \<and> untouched [cpp_out_dir] st0 s) \<and>
   (\<forall>s1 s2 s3 e s. build_python (warn_root env st0) = Returned () s1 \<and>
      build_javascript s1 = Returned () s2 \<and> build_swift s2 = Returned () s3 \<and>
      build_cpp env k s3 = Some (Raised e s) \<longrightarrow>
      main env k st0 = Some (Raised e s)) \<and>
   (\<forall>s1 s2 s3 s4. build_python (warn_root env st0) = Returned () s1 \<and>
      build_javascript s1 = Returned () s2 \<and> build_swift s2 = Returned () s3 \<and>
      build_cpp env k s3 = Some (Returned () s4) \<longrightarrow>
      main env k st0 = Some (Returned () (say ''done'' s4)) \<and>
      exit_status (Returned () (say ''done'' s4)) = 0) \<and>
   (\<not> path_exists (files st0) python_raw \<longrightarrow>
      main env k st0 =
        Some (Raised (SystemExit ''Python raw docs not found. Run: ./rag-ml/kb/pull-docs.sh'')
                (warn_root env st0))) \<and>
   (\<forall>s1. build_python (warn_root env st0) = Returned () s1 \<and>
      \<not> path_exists (files s1) javascript_raw_txt \<longrightarrow>
      main env k st0 =
        Some (Raised (SystemExit ''JS raw ecma262.txt not found. Run: ./rag-ml/kb/pull-docs.sh'') s1)) \<and>
   (\<forall>s1 s2. build_python (warn_root env st0) = Returned () s1 \<and>
      build_javascript s1 = Returned () s2 \<and> \<not> path_exists (files s2) swift_raw \<longrightarrow>
      main env k st0 =
        Some (Raised (SystemExit ''Swift raw swift-book not found. Run: ./rag-ml/kb/pull-docs.sh'') s2)) \<and>
   (\<forall>s1 s2 s3. build_python (warn_root env st0) = Returned () s1 \<and>
      build_javascript s1 = Returned () s2 \<and> build_swift s2 = Returned () s3 \<and>
      pypdf_installed env \<and> \<not> path_exists (files s3) cpp_pdf_path \<longrightarrow>
      main env k st0 =
        Some (Raised (SystemExit ''C++ draft PDF not found. Run: ./rag-ml/kb/pull-docs.sh'') s3)) \<and>
   (\<forall>e s. exit_status (Raised e s) \<noteq> 0)"
proof -
  let ?st = "warn_root env st0"
  have p: "untouched ds st0 (state_of (build_python ?st))"
    if "\<forall>d\<in>set ds. d = javascript_out_dir \<or> d = swift_out \<or> d = cpp_out_dir" for ds
    using untouched_after_python [OF that, of ?st] by (simp add: untouched_warn_root)
  have c1: "main env k st0 = Some (Raised e s) \<and>
      untouched [javascript_out_dir, swift_out, cpp_out_dir] st0 s"
    if "build_python ?st = Raised e s" for e s
    using p [of "[javascript_out_dir, swift_out, cpp_out_dir]"] that
    by (simp add: main_def Let_def)
  have c2: "main env k st0 = Some (Raised e s) \<and> untouched [swift_out, cpp_out_dir] st0 s"
    if "build_python ?st = Returned () s1 \<and> build_javascript s1 = Raised e s" for s1 e s
    using untouched_trans [OF p [of "[swift_out, cpp_out_dir]"]
            untouched_after_javascript [of "[swift_out, cpp_out_dir]" "state_of (build_python ?st)"]]
      that by (simp add: main_def Let_def)
  have c3: "main env k st0 = Some (Raised e s) \<and> untouched [cpp_out_dir] st0 s"
    if "build_python ?st = Returned () s1 \<and> build_javascript s1 = Returned () s2 \<and>
        build_swift s2 = Raised e s" for s1 s2 e s
    using untouched_trans [OF untouched_trans [OF p [of "[cpp_out_dir]"]
            untouched_after_javascript [of "[cpp_out_dir]" "state_of (build_python ?st)"]]
            untouched_after_swift [of "state_of (build_javascript (state_of (build_python ?st)))"]]
      that by (simp add: main_def Let_def)
  have c4: "main env k st0 = Some (Raised e s)"
    if "build_python ?st = Returned () s1 \<and> build_javascript s1 = Returned () s2 \<and>
        build_swift s2 = Returned () s3 \<and> build_cpp env k s3 = Some (Raised e s)" for s1 s2 s3 e s
    using that by (simp add: main_def Let_def)
  have c5: "main env k st0 = Some (Returned () (say ''done'' s4)) \<and>
      exit_status (Returned () (say ''done'' s4)) = 0"
    if "build_python ?st = Returned () s1 \<and> build_javascript s1 = Returned () s2 \<and>
        build_swift s2 = Returned () s3 \<and> build_cpp env k s3 = Some (Returned () s4)" for s1 s2 s3 s4
    using that by (simp add: main_def Let_def exit_status_def)
  have m1: "build_python ?st =
      Raised (SystemExit ''Python raw docs not found. Run: ./rag-ml/kb/pull-docs.sh'') ?st"
    if "\<not> path_exists (files st0) python_raw"
    using that by (simp add: build_python_def)
  have m2: "build_javascript s1 =
      Raised (SystemExit ''JS raw ecma262.txt not found. Run: ./rag-ml/kb/pull-docs.sh'') s1"
    if "\<not> path_exists (files s1) javascript_raw_txt" for s1
    using that by (simp add: build_javascript_def)
  have m3: "build_swift s2 =
      Raised (SystemExit ''Swift raw swift-book not found. Run: ./rag-ml/kb/pull-docs.sh'') s2"
    if "\<not> path_exists (files s2) swift_raw" for s2
    using that by (simp add: build_swift_def)
  have m4: "build_cpp env k s3 =
      Some (Raised (SystemExit ''C++ draft PDF not found. Run: ./rag-ml/kb/pull-docs.sh'') s3)"
    if "pypdf_installed env \<and> \<not> path_exists (files s3) cpp_pdf_path" for s3
    using that by (simp add: build_cpp_def)
  have c6: "main env k st0 =
        Some (Raised (SystemExit ''Python raw docs not found. Run: ./rag-ml/kb/pull-docs.sh'') ?st)"
    if "\<not> path_exists (files st0) python_raw"
    using c1 [OF m1 [OF that]] by simp
  have c7: "main env k st0 =
        Some (Raised (SystemExit ''JS raw ecma262.txt not found. Run: ./rag-ml/kb/pull-docs.sh'') s1)"
    if "build_python ?st = Returned () s1 \<and> \<not> path_exists (files s1) javascript_raw_txt" for s1
    using c2 [of s1] m2 [of s1] that by simp
  have c8: "main env k st0 =
        Some (Raised (SystemExit ''Swift raw swift-book not found. Run: ./rag-ml/kb/pull-docs.sh'') s2)"
    if "build_python ?st = Returned () s1 \<and> build_javascript s1 = Returned () s2 \<and>
        \<not> path_exists (files s2) swift_raw" for s1 s2
    using c3 [of s1 s2] m3 [of s2] that by simp
  have c9: "main env k st0 =
        Some (Raised (SystemExit ''C++ draft PDF not found. Run: ./rag-ml/kb/pull-docs.sh'') s3)"
    if "build_python ?st = Returned () s1 \<and> build_javascript s1 = Returned () s2 \<and>
        build_swift s2 = Returned () s3 \<and> pypdf_installed env \<and>
        \<not> path_exists (files s3) cpp_pdf_path" for s1 s2 s3
    using c4 [of s1 s2 s3] m4 [of s3] that by simp
  have c10: "exit_status (Raised e s) \<noteq> 0" for e s
    by (simp add: exit_status_def)
  show ?thesis
    apply (intro conjI allI impI)
    subgoal for e s using c1 [of e s] by blast
    subgoal for e s using c1 [of e s] by blast
    subgoal for s1 e s using c2 [of s1 e s] by blast
    subgoal for s1 e s using c2 [of s1 e s] by blast
    subgoal for s1 s2 e s using c3 [of s1 s2 e s] by blast
    subgoal for s1 s2 e s using c3 [of s1 s2 e s] by blast
    subgoal for s1 s2 s3 e s using c4 [of s1 s2 s3 e s] by blast
    subgoal for s1 s2 s3 s4 using c5 [of s1 s2 s3 s4] by blast
    subgoal for s1 s2 s3 s4 using c5 [of s1 s2 s3 s4] by blast
    subgoal using c6 by blast
    subgoal for s1 using c7 [of s1] by blast
    subgoal for s1 s2 using c8 [of s1 s2] by blast
    subgoal for s1 s2 s3 using c9 [of s1 s2 s3] by blast
    subgoal for e s using c10 [of e s] by blast
    done
qed

lemma python_demo_returns: "returned (build_python (upto_language 8))"
  by code_simp

theorem main_halts_at_first_failure_witness:
  "main (demo_env [Some ''a'']) 1 bare_state =
     Some (Raised (SystemExit ''Python raw docs not found. Run: ./rag-ml/kb/pull-docs.sh'') bare_state) \<and>
   (\<exists>s. main (demo_env [Some ''a'']) 1 (upto_language 8) =
      Some (Raised (SystemExit ''JS raw ecma262.txt not found. Run: ./rag-ml/kb/pull-docs.sh'') s)) \<and>
   (\<exists>s. main (demo_env [Some ''a'']) 1 full_state = Some (Returned () s) \<and>
        exit_status (Returned () s) = 0)"
proof -
  let ?env = "demo_env [Some ''a'']"
  have w: "warn_root ?env st = st" for st
    by (simp add: warn_root_def demo_env_def name_of_def)
  note m = main_halts_at_first_failure [of ?env _ 1, unfolded w]
  note m5 = m [THEN conjunct2, THEN conjunct2, THEN conjunct2, THEN conjunct2, THEN conjunct1,
      rule_format]
  note m6 = m [THEN conjunct2, THEN conjunct2, THEN conjunct2, THEN conjunct2, THEN conjunct2,
      THEN conjunct1, rule_format]
  note m7 = m [THEN conjunct2, THEN conjunct2, THEN conjunct2, THEN conjunct2, THEN conjunct2,
      THEN conjunct2, THEN conjunct1, rule_format]
  have a1: "\<not> path_exists (files bare_state) python_raw"
    by (simp add: bare_state_def path_exists_def lookup_def python_raw_def)
  have b1: "main ?env 1 bare_state =
     Some (Raised (SystemExit ''Python raw docs not found. Run: ./rag-ml/kb/pull-docs.sh'') bare_state)"
    by (rule m6 [OF a1])
  from python_demo_returns have a2: "build_python (upto_language 8) = Returned () (state_of (build_python (upto_language 8)))"
    by (rule returned_unit)
  have "lookup (files (state_of (build_python (upto_language 8)))) javascript_raw_txt
        = lookup (files (upto_language 8)) javascript_raw_txt"
    by (rule build_python_frame) (simp_all add: python_out_def javascript_raw_txt_def)
  also have "\<dots> = None" by code_simp
  finally have a2': "\<not> path_exists (files (state_of (build_python (upto_language 8)))) javascript_raw_txt"
    by (simp add: path_exists_def)
  have b2: "\<exists>s. main ?env 1 (upto_language 8) =
      Some (Raised (SystemExit ''JS raw ecma262.txt not found. Run: ./rag-ml/kb/pull-docs.sh'') s)"
    by (rule exI, rule m7 [OF conjI [OF a2 a2']])
  have "case main ?env 1 full_state of None \<Rightarrow> False | Some r \<Rightarrow> returned r"
    by code_simp
  then obtain s where "main ?env 1 full_state = Some (Returned () s)"
    by (auto split: option.splits dest: returned_unit)
  from main_Returned_builds [OF this] obtain s1 s2 s3 s4 where
    "build_python (warn_root ?env full_state) = Returned () s1 \<and>
     build_javascript s1 = Returned () s2 \<and> build_swift s2 = Returned () s3 \<and>
     build_cpp ?env 1 s3 = Some (Returned () s4)" by blast
  then have "build_python full_state = Returned () s1 \<and>
     build_javascript s1 = Returned () s2 \<and> build_swift s2 = Returned () s3 \<and>
     build_cpp ?env 1 s3 = Some (Returned () s4)" by (simp only: w)
  from m5 [OF this]
  have b5: "\<exists>s. main ?env 1 full_state = Some (Returned () s) \<and> exit_status (Returned () s) = 0"
    by (rule exI)
  from b1 b2 b5 show ?thesis by (intro conjI)
qed

























lemma files_cpp_enter [simp]: "files (cpp_enter pages k st f1) = f1"
  by (simp add: cpp_enter_def)
















lemma write_batch_limited_fits:
  assumes "length (out_name s e) \<le> name_max"
  shows "write_batch_limited name_max m pages s e st = write_batch m pages s e st"
  using assms by (simp add: write_batch_limited_def write_batch_def open_w_limited_def Let_def)

lemma write_batch_limited_long:
  assumes "is_dir (files st) cpp_out_dir" "name_max < length (out_name s e)"
  shows "write_batch_limited name_max m pages s e st =
           Raised FileNameTooLong (say (''cpp: write '' @ out_name s e) st)"
  using assms by (simp add: write_batch_limited_def open_w_limited_def Let_def say_def)

lemma write_batch_limited_empty_range:
  assumes "cpp_ready (files st)" "e < s"
  shows "(length (out_name s e) \<le> name_max \<and>
          write_batch_limited name_max m pages s e st =
            Returned () ((say (''cpp: write '' @ out_name s e) st)
              \<lparr>files := AList.update (cpp_out_dir @ [out_name s e])
                          (File (batch_text pages s e) m) (files st)\<rparr>)) \<or>
         (name_max < length (out_name s e) \<and>
          write_batch_limited name_max m pages s e st =
            Raised FileNameTooLong (say (''cpp: write '' @ out_name s e) st))"
proof (cases "length (out_name s e) \<le> name_max")
  case True
  from assms(2) have emp: "\<forall>i\<in>set [s..e]. 0 \<le> i \<and> i < int (length pages)" by simp
  from assms(1) have rd: "is_dir (files st) cpp_out_dir"
    "lookup (files st) (cpp_out_dir @ [out_name s e]) \<noteq> Some Dir"
    by (auto simp: cpp_ready_def)
  from write_batch_ok [OF rd emp, of m] True show ?thesis
    by (simp add: write_batch_limited_fits)
next
  case False
  from assms(1) have "is_dir (files st) cpp_out_dir" by (simp add: cpp_ready_def)
  from write_batch_limited_long [OF this, of name_max s e m pages] False show ?thesis
    by simp
qed

lemma cpp_loop_limited_zero_diverges:
  assumes "0 < int (length pages)" "cpp_ready (files st)"
    and "length (out_name 0 (- 1)) \<le> name_max"
  shows "cpp_loop_limited name_max m pages 0 0 st = None"
proof (rule ccontr)
  assume "cpp_loop_limited name_max m pages 0 0 st \<noteq> None"
  then obtain y where some: "cpp_loop_limited name_max m pages 0 0 st = Some y" by auto
  have "\<not> (0 = (0::int) \<and> (0::int) = 0 \<and> 0 < int (length pages) \<and> cpp_ready (files st) \<and>
           length (out_name 0 (- 1)) \<le> name_max)"
  proof (rule cpp_loop_limited.raw_induct
      [where P = "\<lambda>name_max m pages k start st y.
         \<not> (k = 0 \<and> start = 0 \<and> 0 < int (length pages) \<and> cpp_ready (files st) \<and>
            length (out_name 0 (- 1)) \<le> name_max)",
       OF _ some])
    fix loop name_max m pages k start st y
    assume IH: "\<And>name_max m pages k start st y. loop name_max m pages k start st = Some y \<Longrightarrow>
                  \<not> (k = 0 \<and> start = 0 \<and> 0 < int (length pages) \<and> cpp_ready (files st) \<and>
                     length (out_name 0 (- 1)) \<le> name_max)"
      and eq: "(if start < int (length pages) then
        (case write_batch_limited name_max m pages start
                (min (int (length pages) - 1) (start + k - 1)) st of
           Raised e s \<Rightarrow> Some (Raised e s)
         | Returned u s \<Rightarrow>
             loop name_max m pages k
               (min (int (length pages) - 1) (start + k - 1) + 1) s)
      else Some (Returned () st)) = Some y"
    show "\<not> (k = 0 \<and> start = 0 \<and> 0 < int (length pages) \<and> cpp_ready (files st) \<and>
            length (out_name 0 (- 1)) \<le> name_max)"
    proof
      assume a: "k = 0 \<and> start = 0 \<and> 0 < int (length pages) \<and> cpp_ready (files st) \<and>
            length (out_name 0 (- 1)) \<le> name_max"
      then have e: "min (int (length pages) - 1) (start + k - 1) = - 1" by simp
      let ?st' = "(say (''cpp: write '' @ out_name 0 (- 1)) st)
              \<lparr>files := AList.update (cpp_out_dir @ [out_name 0 (- 1)])
                          (File (batch_text pages 0 (- 1)) m) (files st)\<rparr>"
      from a have rd: "cpp_ready (files st)" by simp
      from write_batch_limited_empty_range [OF rd, of "- 1" 0 name_max m pages] a
      have wb: "write_batch_limited name_max m pages 0 (- 1) st = Returned () ?st'" by simp
      from eq a have "loop name_max m pages 0 0 ?st' = Some y"
        by (simp add: e wb)
      from IH [OF this] have "\<not> (0 < int (length pages) \<and> cpp_ready (files ?st') \<and>
            length (out_name 0 (- 1)) \<le> name_max)" by simp
      moreover have "cpp_ready (files ?st')" using rd by (simp add: cpp_ready_update)
      ultimately show False using a by blast
    qed
  qed
  with assms show False by simp
qed

lemma cpp_loop_limited_negative:
  assumes "cpp_loop_limited name_max m pages k start st = Some y"
    and "k < 0" "start < int (length pages)" "cpp_ready (files st)"
  shows "\<exists>s. y = Raised FileNameTooLong s"
proof -
  have "k < 0 \<and> start < int (length pages) \<and> cpp_ready (files st) \<longrightarrow>
        (\<exists>s. y = Raised FileNameTooLong s)"
  proof (rule cpp_loop_limited.raw_induct
      [where P = "\<lambda>name_max m pages k start st y.
         k < 0 \<and> start < int (length pages) \<and> cpp_ready (files st) \<longrightarrow>
         (\<exists>s. y = Raised FileNameTooLong s)",
       OF _ assms(1)])
    fix loop name_max m pages k start st y
    assume IH: "\<And>name_max m pages k start st y. loop name_max m pages k start st = Some y \<Longrightarrow>
                  k < 0 \<and> start < int (length pages) \<and> cpp_ready (files st) \<longrightarrow>
                  (\<exists>s. y = Raised FileNameTooLong s)"
      and eq: "(if start < int (length pages) then
        (case write_batch_limited name_max m pages start
                (min (int (length pages) - 1) (start + k - 1)) st of
           Raised e s \<Rightarrow> Some (Raised e s)
         | Returned u s \<Rightarrow>
             loop name_max m pages k
               (min (int (length pages) - 1) (start + k - 1) + 1) s)
      else Some (Returned () st)) = Some y"
    show "k < 0 \<and> start < int (length pages) \<and> cpp_ready (files st) \<longrightarrow>
            (\<exists>s. y = Raised FileNameTooLong s)"
    proof
      assume a: "k < 0 \<and> start < int (length pages) \<and> cpp_ready (files st)"
      let ?e = "min (int (length pages) - 1) (start + k - 1)"
      from a have lt: "?e < start" by simp
      from a have rd: "cpp_ready (files st)" by simp
      let ?st' = "(say (''cpp: write '' @ out_name start ?e) st)
              \<lparr>files := AList.update (cpp_out_dir @ [out_name start ?e])
                          (File (batch_text pages start ?e) m) (files st)\<rparr>"
      from write_batch_limited_empty_range [OF rd lt, of name_max m pages]
      show "\<exists>s. y = Raised FileNameTooLong s"
      proof
        assume fits: "length (out_name start ?e) \<le> name_max \<and>
          write_batch_limited name_max m pages start ?e st = Returned () ?st'"
        with eq a have "loop name_max m pages k (?e + 1) ?st' = Some y"
          by (simp only: if_True result.case)
        from IH [OF this]
        have "k < 0 \<and> ?e + 1 < int (length pages) \<and> cpp_ready (files ?st') \<longrightarrow>
              (\<exists>s. y = Raised FileNameTooLong s)" .
        moreover have "?e + 1 < int (length pages)" using a by auto
        moreover have "cpp_ready (files ?st')" using rd by (simp add: cpp_ready_update)
        ultimately show ?thesis using a by blast
      next
        assume long: "name_max < length (out_name start ?e) \<and>
          write_batch_limited name_max m pages start ?e st =
            Raised FileNameTooLong (say (''cpp: write '' @ out_name start ?e) st)"
        with eq a have "y = Raised FileNameTooLong (say (''cpp: write '' @ out_name start ?e) st)"
          by (simp only: if_True result.case option.inject)
        then show ?thesis by blast
      qed
    qed
  qed
  with assms(2-4) show ?thesis by blast
qed

lemma build_cpp_limited_reaches_loop:
  assumes "pypdf_installed env"
    and "lookup (files st) cpp_pdf_path = Some (File c mt)"
    and "pdf_reader env c = Some pages"
    and "creatable (files st) cpp_out_dir"
  shows "build_cpp_limited name_max env k st =
           cpp_loop_limited name_max (new_meta env) pages k 0 (cpp_begin pages k st)"
proof -
  have ex: "path_exists (files st) cpp_pdf_path"
    using assms(2) by (simp add: path_exists_def)
  have rs: "reset_dir cpp_out_dir (files st) = Returned () (reset_result cpp_out_dir (files st))"
    using reset_dir_ok [OF assms(4)] by (simp add: reset_result_def)
  have "lookup (reset_result cpp_out_dir (files st)) cpp_pdf_path = lookup (files st) cpp_pdf_path"
    by (rule reset_result_other) (simp_all add: cpp_out_dir_def cpp_pdf_path_def)
  then have rd: "PdfReader env cpp_pdf_path (reset_result cpp_out_dir (files st)) = Some pages"
    using assms(2,3) by (simp add: PdfReader_def)
  show ?thesis
    using assms(1) ex rs rd by (simp add: build_cpp_limited_def Let_def cpp_begin_def)
qed

lemma zero_batch_name: "out_name 0 (- 1) = ''cpp-draft.p0001-p0000.txt''"
  by code_simp

lemma digits_length_lower: "10 ^ d \<le> n \<Longrightarrow> d < length (digits n)"
proof (induction d arbitrary: n)
  case 0
  show ?case by (subst digits.simps) simp
next
  case (Suc d)
  then have "10 ^ d \<le> n div 10" by (simp add: less_eq_div_iff_mult_less_eq mult.commute)
  from Suc.IH [OF this] have "d < length (digits (n div 10))" .
  moreover from Suc.prems have "\<not> n < 10"
    by (metis One_nat_def Suc_leI le_trans not_less one_le_numeral one_le_power power_Suc0_right
        power_increasing power_one_right zero_less_Suc)
  ultimately show ?case by (subst digits.simps) simp
qed

lemma negative_batch_name_lower:
  assumes "k < 0" "10 ^ d \<le> - k"
  shows "d + 22 < length (out_name 0 (k - 1))"
proof -
  from assms(2) have "(10::nat) ^ d \<le> nat (- k)"
    by (metis nat_mono nat_numeral nat_power_eq zero_le_numeral)
  then have "d < length (digits (nat (- k)))" by (rule digits_length_lower)
  moreover have "length (fmt04d 1) = 4" by code_simp
  ultimately show ?thesis
    using assms(1) by (simp add: out_name_def fmt04d_def zero_pad_def)
qed

lemma build_cpp_limited_first_name_too_long:
  assumes "pypdf_installed env"
    and "lookup (files st) cpp_pdf_path = Some (File c mt)"
    and "pdf_reader env c = Some pages"
    and "pages \<noteq> []"
    and "wf_fs (files st)"
    and "creatable (files st) cpp_out_dir"
    and "k < 0"
    and "name_max < length (out_name 0 (k - 1))"
  shows "build_cpp_limited name_max env k st =
           Some (Raised FileNameTooLong
                   (say (''cpp: write '' @ out_name 0 (k - 1)) (cpp_begin pages k st)))"
proof -
  have reach: "build_cpp_limited name_max env k st =
      cpp_loop_limited name_max (new_meta env) pages k 0 (cpp_begin pages k st)"
    by (rule build_cpp_limited_reaches_loop [OF assms(1,2,3,6)])
  have pos: "0 < int (length pages)" using assms(4) by simp
  have ready: "cpp_ready (files (cpp_begin pages k st))"
    using reset_result_ready [OF assms(5,6)] by simp
  then have d: "is_dir (files (cpp_begin pages k st)) cpp_out_dir" by (simp add: cpp_ready_def)
  have e: "min (int (length pages) - 1) (0 + k - 1) = k - 1" using pos assms(7) by simp
  from write_batch_limited_long [OF d assms(8), of "new_meta env" pages]
  have "cpp_loop_limited name_max (new_meta env) pages k 0 (cpp_begin pages k st) =
      Some (Raised FileNameTooLong
              (say (''cpp: write '' @ out_name 0 (k - 1)) (cpp_begin pages k st)))"
    using pos by (subst cpp_loop_limited.simps) (simp only: e if_True result.case)
  with reach show ?thesis by simp
qed

text \<open>
  Claim C9, amended. Let the PDF have at least one page. With a batch size of zero,
  build\_cpp never returns: the start index stays at zero and the same empty file,
  cpp-draft.p0001-p0000.txt, is opened again for ever (on any file system that accepts
  this name of 25 characters). With a batch size below zero the start index never gets
  past the page count either, it decreases with every iteration, and no configuration
  error is raised; but every iteration opens a file with a new and eventually longer name,
  so the run never returns normally, and when it ends it ends with the OSError of an open
  that the file system refused.
\<close>

theorem build_cpp_nonpositive_batch_never_returns:
  assumes "pypdf_installed env"
    and "lookup (files st) cpp_pdf_path = Some (File c mt)"
    and "pdf_reader env c = Some pages"
    and "pages \<noteq> []"
    and "wf_fs (files st)"
    and "creatable (files st) cpp_out_dir"
  shows "(25 \<le> name_max \<longrightarrow> build_cpp_limited name_max env 0 st = None) \<and>
         (k < 0 \<longrightarrow>
            (\<forall>r. build_cpp_limited name_max env k st = Some r \<longrightarrow>
                 (\<exists>s. r = Raised FileNameTooLong s)))"
proof -
  have reach: "build_cpp_limited name_max env k st =
      cpp_loop_limited name_max (new_meta env) pages k 0 (cpp_begin pages k st)" for k
    by (rule build_cpp_limited_reaches_loop [OF assms(1,2,3,6)])
  have pos: "0 < int (length pages)" using assms(4) by simp
  have ready: "cpp_ready (files (cpp_begin pages k st))" for k
    using reset_result_ready [OF assms(5,6)] by simp
  have z: "build_cpp_limited name_max env 0 st = None" if "25 \<le> name_max"
  proof -
    from that have "length (out_name 0 (- 1)) \<le> name_max" by (simp add: zero_batch_name)
    from cpp_loop_limited_zero_diverges [OF pos ready this] show ?thesis
      by (simp add: reach)
  qed
  have n: "\<exists>s. r = Raised FileNameTooLong s"
    if "k < 0" "build_cpp_limited name_max env k st = Some r" for r
    using cpp_loop_limited_negative [OF _ that(1) pos ready] that(2) by (simp add: reach)
  from z n show ?thesis by blast
qed

text \<open>
  Claim C9, as stated, fails for a batch size below zero: the loop does not run for ever,
  because every iteration opens a file with a new name. For the batch size -10^250, which
  the argument parser accepts, the very first name has more than 255 characters, and on a
  file system that limits names to 255 characters the first open raises OSError: the run
  ends at once, with an exception.
\<close>

theorem build_cpp_huge_negative_batch_counterexample:
  "255 < length (out_name 0 (- (10 ^ 250) - 1)) \<and>
   build_cpp_limited 255 (demo_env [Some ''a'']) (- (10 ^ 250)) demo_state \<noteq> None \<and>
   outcome_error (build_cpp_limited 255 (demo_env [Some ''a'']) (- (10 ^ 250)) demo_state)
     = Some FileNameTooLong"
proof -
  have h1: "pypdf_installed (demo_env [Some ''a''])"
    by (simp add: demo_env_def)
  have h2: "lookup (files demo_state) cpp_pdf_path = Some (File ''%PDF-1.7'' (Meta 100 420))"
    by (simp add: demo_state_def lookup_def cpp_pdf_path_def)
  have h3: "pdf_reader (demo_env [Some ''a'']) ''%PDF-1.7'' = Some [Some ''a'']"
    by (simp add: demo_env_def)
  have h4: "[Some ''a''] \<noteq> []" by simp
  have h5: "wf_fs (files demo_state)"
    by (simp add: demo_state_def wf_fs_def is_dir_def lookup_def)
  have h6: "creatable (files demo_state) cpp_out_dir"
    by (simp add: demo_state_def creatable_def is_file_def lookup_def cpp_out_dir_def)
  have neg: "- (10 ^ 250) < (0::int)"
    by (simp only: neg_less_0_iff_less zero_less_power zero_less_numeral)
  have big: "(10::int) ^ 250 \<le> - (- (10 ^ 250))"
    by (simp only: minus_minus order_refl)
  from negative_batch_name_lower [OF neg big]
  have long: "255 < length (out_name 0 (- (10 ^ 250) - 1))" by (rule order.strict_trans [rotated]) simp
  from build_cpp_limited_first_name_too_long [OF h1 h2 h3 h4 h5 h6 neg long]
  have r: "build_cpp_limited 255 (demo_env [Some ''a'']) (- (10 ^ 250)) demo_state =
           Some (Raised FileNameTooLong
                   (say (''cpp: write '' @ out_name 0 (- (10 ^ 250) - 1))
                      (cpp_begin [Some ''a''] (- (10 ^ 250)) demo_state)))" .
  have a: "build_cpp_limited 255 (demo_env [Some ''a'']) (- (10 ^ 250)) demo_state \<noteq> None"
    by (simp only: r option.distinct not_False_eq_True)
  have b: "outcome_error (build_cpp_limited 255 (demo_env [Some ''a'']) (- (10 ^ 250)) demo_state)
     = Some FileNameTooLong"
    by (simp only: r outcome_error_def option.case result.case)
  from long a b show ?thesis by (intro conjI)
qed

theorem build_cpp_nonpositive_batch_never_returns_witness:
  "build_cpp_limited 255 (demo_env [Some ''a'']) 0 demo_state = None \<and>
   \<not> run_returned (build_cpp_limited 255 (demo_env [Some ''a'']) (- 5) demo_state)"
proof -
  have h1: "pypdf_installed (demo_env [Some ''a''])"
    by (simp add: demo_env_def)
  have h2: "lookup (files demo_state) cpp_pdf_path = Some (File ''%PDF-1.7'' (Meta 100 420))"
    by (simp add: demo_state_def lookup_def cpp_pdf_path_def)
  have h3: "pdf_reader (demo_env [Some ''a'']) ''%PDF-1.7'' = Some [Some ''a'']"
    by (simp add: demo_env_def)
  have h4: "[Some ''a''] \<noteq> []" by simp
  have h5: "wf_fs (files demo_state)"
    by (simp add: demo_state_def wf_fs_def is_dir_def lookup_def)
  have h6: "creatable (files demo_state) cpp_out_dir"
    by (simp add: demo_state_def creatable_def is_file_def lookup_def cpp_out_dir_def)
  note t = build_cpp_nonpositive_batch_never_returns [OF h1 h2 h3 h4 h5 h6, of 255 "- 5"]
  have a: "(25::nat) \<le> 255" by simp
  have b: "(- 5::int) < 0" by simp
  note t1 = t [THEN conjunct1, rule_format, OF a]
  note t2 = t [THEN conjunct2, rule_format, OF b]
  have "\<not> run_returned (build_cpp_limited 255 (demo_env [Some ''a'']) (- 5) demo_state)"
  proof (cases "build_cpp_limited 255 (demo_env [Some ''a'']) (- 5) demo_state")
    case None
    then show ?thesis by (simp add: run_returned_def)
  next
    case (Some r)
    from t2 [OF Some] obtain s where "r = Raised FileNameTooLong s" by blast
    with Some show ?thesis by (simp add: run_returned_def)
  qed
  with t1 show ?thesis by (intro conjI)
qed

end
